theory Spec2Isabelle
  imports Complex_Main "HOL-Library.Monad_Syntax"
begin

unbundle bit_operations_syntax

section \<open>Scalars, vectors and quaternions\<close>

text \<open>
  The rigid-body kernels of \<^verbatim>\<open>hoomd/md/ForceCompositeGPU.cu\<close> work on \<^verbatim>\<open>Scalar\<close>,
  \<^verbatim>\<open>Scalar3\<close>, \<^verbatim>\<open>Scalar4\<close>, \<^verbatim>\<open>int3\<close> and \<^verbatim>\<open>unsigned int\<close>.
  A \<^verbatim>\<open>Scalar\<close> is idealised as a real number: every sum and product below is exact, and
  rounding is outside the model. An \<^verbatim>\<open>unsigned int\<close> is a natural number with the
  wrap-around modulo \<open>2 ^ 32\<close> written out wherever the source computes with it.
\<close>

datatype scalar4 = Scalar4 (s4x: real) (s4y: real) (s4z: real) (s4w: real)

datatype vec3 = Vec3 (vx: real) (vy: real) (vz: real)

datatype quat = Quat (qs: real) (qv: vec3)

datatype int3 = Int3 (ix: int) (iy: int) (iz: int)

text \<open>
  The position record \<^verbatim>\<open>d_postype[i]\<close> is a \<^verbatim>\<open>Scalar4\<close> whose \<^verbatim>\<open>w\<close> lane carries the
  bit pattern of the particle type. \<^verbatim>\<open>__scalar_as_int\<close> and \<^verbatim>\<open>__int_as_scalar\<close> are bit
  casts, so the lane is kept as the 32-bit integer it carries and both casts are the
  identity on it.
\<close>

datatype postype = Postype (px: real) (py: real) (pz: real) (ptype: nat)

instantiation scalar4 :: comm_monoid_add
begin

definition zero_scalar4 :: scalar4 where
  "zero_scalar4 = Scalar4 0 0 0 0"

definition plus_scalar4 :: "scalar4 \<Rightarrow> scalar4 \<Rightarrow> scalar4" where
  "plus_scalar4 a b = Scalar4 (s4x a + s4x b) (s4y a + s4y b) (s4z a + s4z b) (s4w a + s4w b)"

instance
  by standard (simp_all add: zero_scalar4_def plus_scalar4_def)

end

instantiation vec3 :: comm_monoid_add
begin

definition zero_vec3 :: vec3 where
  "zero_vec3 = Vec3 0 0 0"

definition plus_vec3 :: "vec3 \<Rightarrow> vec3 \<Rightarrow> vec3" where
  "plus_vec3 a b = Vec3 (vx a + vx b) (vy a + vy b) (vz a + vz b)"

instance
  by standard (simp_all add: zero_vec3_def plus_vec3_def)

end

text \<open>
  Modelled from the spec: \<^verbatim>\<open>hoomd/VectorMath.h\<close> (the constructors of \<^verbatim>\<open>vec3\<close> and
  \<^verbatim>\<open>quat\<close> from \<^verbatim>\<open>Scalar4\<close>, \<^verbatim>\<open>cross\<close>, \<^verbatim>\<open>rotate\<close> and the quaternion product)
  is included by the kernels but is not among the sources. The spec names the operations
  (the cross product \<open>r \<times> f\<close>, rotation of a body-frame offset by an orientation, the
  quaternion product); they are given here in their standard form, a quaternion being a
  scalar part and a vector part, read from a \<^verbatim>\<open>Scalar4\<close> as \<open>(x, (y, z, w))\<close>.
\<close>

definition vec3_of_scalar4 :: "scalar4 \<Rightarrow> vec3" where
  "vec3_of_scalar4 a = Vec3 (s4x a) (s4y a) (s4z a)"

definition vec3_of_postype :: "postype \<Rightarrow> vec3" where
  "vec3_of_postype a = Vec3 (px a) (py a) (pz a)"

definition quat_of_scalar4 :: "scalar4 \<Rightarrow> quat" where
  "quat_of_scalar4 a = Quat (s4x a) (Vec3 (s4y a) (s4z a) (s4w a))"

definition dot :: "vec3 \<Rightarrow> vec3 \<Rightarrow> real" where
  "dot a b = vx a * vx b + vy a * vy b + vz a * vz b"

definition cross :: "vec3 \<Rightarrow> vec3 \<Rightarrow> vec3" where
  "cross a b = Vec3 (vy a * vz b - vz a * vy b) (vz a * vx b - vx a * vz b)
                    (vx a * vy b - vy a * vx b)"

definition smul :: "real \<Rightarrow> vec3 \<Rightarrow> vec3" where
  "smul c a = Vec3 (c * vx a) (c * vy a) (c * vz a)"

definition rotate :: "quat \<Rightarrow> vec3 \<Rightarrow> vec3" where
  "rotate a b = smul (qs a * qs a - dot (qv a) (qv a)) b
                + smul (2 * qs a) (cross (qv a) b)
                + smul (2 * dot (qv a) b) (qv a)"

definition quat_mul :: "quat \<Rightarrow> quat \<Rightarrow> quat" where
  "quat_mul a b = Quat (qs a * qs b - dot (qv a) (qv b))
                       (smul (qs a) (qv b) + smul (qs b) (qv a) + cross (qv a) (qv b))"

section \<open>Unsigned arithmetic and sentinels\<close>

definition u32 :: "nat \<Rightarrow> nat" where
  "u32 n = n mod 4294967296"

text \<open>Unsigned subtraction \<^verbatim>\<open>a - b\<close> of two 32-bit values: it wraps below zero.\<close>

definition usub :: "nat \<Rightarrow> nat \<Rightarrow> nat" where
  "usub a b = (u32 a + (4294967296 - u32 b)) mod 4294967296"

text \<open>
  \<^verbatim>\<open>NO_BODY\<close> and \<^verbatim>\<open>NOT_LOCAL\<close> come from \<^verbatim>\<open>hoomd/ParticleData.cuh\<close>, which is not among
  the sources; both are the all-ones pattern \<^verbatim>\<open>0xffffffff\<close> of HOOMD-blue.
\<close>

definition NO_BODY :: nat where
  "NO_BODY = 4294967295"

definition NOT_LOCAL :: nat where
  "NOT_LOCAL = 4294967295"

section \<open>Device memory\<close>

text \<open>
  Device memory is a store addressed by an index: every array is a function from the index
  to the element, so that what a kernel writes, and what it leaves alone, can be stated at
  every index. \<open>device\<close> holds the arrays some kernel writes; \<open>system\<close> holds the
  arguments no kernel writes (the \<^verbatim>\<open>const\<close> arrays, the counts and the indexers).
  \<^verbatim>\<open>Index2D\<close> (\<^verbatim>\<open>hoomd/Index1D.h\<close>) is not among the sources: the two indexers are
  parameters. The local particle count \<^verbatim>\<open>N\<close> is the field \<open>sN\<close>. \<open>rtag_size\<close> is the
  extent of \<^verbatim>\<open>d_rtag\<close> and \<open>template_size\<close> the extent of \<^verbatim>\<open>d_body_pos\<close> and
  \<^verbatim>\<open>d_body_orientation\<close>; the per-particle arrays are valid on the local and ghost
  indices \<open>0 ..< N + n_ghost\<close>.
\<close>

record device =
  d_postype :: "nat \<Rightarrow> postype"
  d_orientation :: "nat \<Rightarrow> scalar4"
  d_image :: "nat \<Rightarrow> int3"
  d_force :: "nat \<Rightarrow> scalar4"
  d_torque :: "nat \<Rightarrow> scalar4"
  d_net_force :: "nat \<Rightarrow> scalar4"
  d_net_torque :: "nat \<Rightarrow> scalar4"
  d_virial :: "nat \<Rightarrow> real"
  d_net_virial :: "nat \<Rightarrow> real"

record system =
  sN :: nat
  n_ghost :: nat
  n_mol :: nat
  d_body :: "nat \<Rightarrow> nat"
  d_rtag :: "nat \<Rightarrow> nat"
  d_tag :: "nat \<Rightarrow> nat"
  d_molecule_len :: "nat \<Rightarrow> nat"
  d_molecule_list :: "nat \<Rightarrow> nat"
  molecule_indexer :: "nat \<Rightarrow> nat \<Rightarrow> nat"
  body_indexer :: "nat \<Rightarrow> nat \<Rightarrow> nat"
  d_body_pos :: "nat \<Rightarrow> vec3"
  d_body_orientation :: "nat \<Rightarrow> scalar4"
  rtag_size :: nat
  template_size :: nat

section \<open>The StateSpreader: \<^verbatim>\<open>gpu_update_composite\<close>\<close>

text \<open>
  A read or a write outside the extent of an array is the fault \<open>None\<close> of the whole
  launch (the source has undefined behaviour there). \<^verbatim>\<open>BoxDim\<close> is not among the
  sources: the operation \<^verbatim>\<open>box.wrap\<close>, which takes a position and an image and returns
  both updated, is the parameter \<open>box_wrap\<close>.
\<close>

definition rd :: "nat \<Rightarrow> (nat \<Rightarrow> 'a) \<Rightarrow> nat \<Rightarrow> 'a option" where
  "rd extent a i = (if i < extent then Some (a i) else None)"

definition wr :: "nat \<Rightarrow> (nat \<Rightarrow> 'a) \<Rightarrow> nat \<Rightarrow> 'a \<Rightarrow> (nat \<Rightarrow> 'a) option" where
  "wr extent a i v = (if i < extent then Some (a(i := v)) else None)"

text \<open>
  One thread of \<^verbatim>\<open>gpu_update_composite_kernel\<close>, for the global thread index \<open>idx\<close>.
  The source computes \<^verbatim>\<open>updated_orientation\<close> and then stores only the position record
  and the image; the model does the same.
\<close>

definition gpu_update_composite_kernel ::
  "system \<Rightarrow> (vec3 \<Rightarrow> int3 \<Rightarrow> vec3 \<times> int3) \<Rightarrow> bool \<Rightarrow> nat \<Rightarrow> device \<Rightarrow> device option" where
  "gpu_update_composite_kernel sy box_wrap remote idx s =
    (let n_all = u32 (sN sy + n_ghost sy) in
     if idx \<ge> n_all then Some s
     else do {
       central_tag \<leftarrow> rd n_all (d_body sy) idx;
       if central_tag = NO_BODY then Some s
       else do {
         central_idx \<leftarrow> rd (rtag_size sy) (d_rtag sy) central_tag;
         if \<not> remote \<and> central_idx \<ge> sN sy then Some s
         else if central_idx = NOT_LOCAL \<and> idx \<ge> sN sy then Some s
         else if idx = central_idx then Some s
         else do {
           postype \<leftarrow> rd n_all (d_postype s) central_idx;
           let pos = vec3_of_postype postype;
           ori \<leftarrow> rd n_all (d_orientation s) central_idx;
           let orientation = quat_of_scalar4 ori;
           let body_type = ptype postype;
           img \<leftarrow> rd n_all (d_image s) central_idx;
           tag \<leftarrow> rd n_all (d_tag sy) idx;
           local_pos \<leftarrow> rd (template_size sy) (d_body_pos sy)
                          (body_indexer sy body_type (usub (usub tag central_tag) 1));
           let dr_space = rotate orientation local_pos;
           let updated_pos = pos + dr_space;
           local_orientation \<leftarrow> rd (template_size sy) (d_body_orientation sy)
                          (body_indexer sy body_type (usub (usub tag central_tag) 1));
           let updated_orientation = quat_mul orientation (quat_of_scalar4 local_orientation);
           let wrapped = box_wrap updated_pos img;
           own \<leftarrow> rd n_all (d_postype s) idx;
           p' \<leftarrow> wr n_all (d_postype s) idx
                  (Postype (vx (fst wrapped)) (vy (fst wrapped)) (vz (fst wrapped)) (ptype own));
           i' \<leftarrow> wr n_all (d_image s) idx (snd wrapped);
           Some (s\<lparr>d_postype := p', d_image := i'\<rparr>)
         }
       }
     })"

text \<open>
  The threads of a launch, in the order of their global index. A fault in one thread is
  the fault of the launch.
\<close>

fun run_threads :: "(nat \<Rightarrow> 's \<Rightarrow> 's option) \<Rightarrow> nat list \<Rightarrow> 's \<Rightarrow> 's option" where
  "run_threads f [] s = Some s"
| "run_threads f (i # is) s = (case f i s of None \<Rightarrow> None | Some s' \<Rightarrow> run_threads f is s')"

text \<open>
  The host function \<^verbatim>\<open>gpu_update_composite\<close>: the block size is the smaller of
  \<^verbatim>\<open>block_size\<close> and the kernel's \<^verbatim>\<open>maxThreadsPerBlock\<close> (a hardware attribute, here the
  parameter \<open>max_block_size\<close>), the grid has \<^verbatim>\<open>(N+n_ghost)/run_block_size + 1\<close> blocks, and
  the thread of block \<open>b\<close> and lane \<open>t\<close> has the index
  \<^verbatim>\<open>blockIdx.x * blockDim.x + threadIdx.x\<close>. A block size of zero divides by zero.
\<close>

definition thread_ids :: "nat \<Rightarrow> nat \<Rightarrow> nat list" where
  "thread_ids n_blocks run_block_size =
     concat (map (\<lambda>b. map (\<lambda>t. u32 (b * run_block_size + t)) [0..<run_block_size]) [0..<n_blocks])"

definition gpu_update_composite ::
  "system \<Rightarrow> (vec3 \<Rightarrow> int3 \<Rightarrow> vec3 \<times> int3) \<Rightarrow> bool \<Rightarrow> nat \<Rightarrow> nat \<Rightarrow> device \<Rightarrow> device option" where
  "gpu_update_composite sy box_wrap remote max_block_size block_size s =
     (let run_block_size = (if max_block_size \<le> block_size then max_block_size else block_size)
      in if run_block_size = 0 then None
         else let n_blocks = u32 (u32 (sN sy + n_ghost sy) div run_block_size + 1)
              in run_threads (gpu_update_composite_kernel sy box_wrap remote)
                   (thread_ids n_blocks run_block_size) s)"

section \<open>The ForceTorqueReducer: the sliding-window kernels\<close>

text \<open>
  \<^verbatim>\<open>gpu_rigid_force_sliding_kernel\<close> and \<^verbatim>\<open>gpu_rigid_virial_sliding_kernel\<close> are the same
  code around two different loop bodies and two different final stores: the threads whose
  lane is 0 load the body into the \<^verbatim>\<open>__shared__\<close> tables, every thread slides over the
  members of its body and keeps a partial sum in registers, the partial sums go to the
  scratch array, a tree reduction inside each window adds them up, and lane 0 stores the
  total at the central particle. The model has one skeleton with the loop body and the
  store as arguments. The phases between two \<^verbatim>\<open>__syncthreads()\<close> run the threads of the
  block in the order of \<^verbatim>\<open>threadIdx.x\<close>, and the blocks run in the order of \<^verbatim>\<open>blockIdx.x\<close>.

  \<open>shared\<close> holds the four \<^verbatim>\<open>__shared__\<close> tables of 16 entries. The registers of a thread
  (\<^verbatim>\<open>sum_force\<close> and \<^verbatim>\<open>sum_torque\<close>, or the six \<^verbatim>\<open>sum_virial_..\<close>) are one value of
  \<open>force_torque\<close> or \<open>sym6\<close>, and the scratch arrays (\<^verbatim>\<open>body_force\<close> and \<^verbatim>\<open>body_torque\<close>,
  or the six \<^verbatim>\<open>body_virial_..\<close>, each one segment of the extern shared array) are one
  array of such values, indexed by \<^verbatim>\<open>threadIdx.x\<close>.
\<close>

record shared =
  mol_idx :: "nat \<Rightarrow> nat"
  central_idx :: "nat \<Rightarrow> nat"
  body_type :: "nat \<Rightarrow> nat"
  body_orientation :: "nat \<Rightarrow> scalar4"

datatype force_torque = Sums (sum_force: scalar4) (sum_torque: vec3)

datatype sym6 = Sym6 (vxx: real) (vxy: real) (vxz: real) (vyy: real) (vyz: real) (vzz: real)

instantiation force_torque :: comm_monoid_add
begin

definition zero_force_torque :: force_torque where
  "zero_force_torque = Sums 0 0"

definition plus_force_torque :: "force_torque \<Rightarrow> force_torque \<Rightarrow> force_torque" where
  "plus_force_torque a b = Sums (sum_force a + sum_force b) (sum_torque a + sum_torque b)"

instance
  by standard (simp_all add: zero_force_torque_def plus_force_torque_def ac_simps)

end

instantiation sym6 :: comm_monoid_add
begin

definition zero_sym6 :: sym6 where
  "zero_sym6 = Sym6 0 0 0 0 0 0"

definition plus_sym6 :: "sym6 \<Rightarrow> sym6 \<Rightarrow> sym6" where
  "plus_sym6 a b = Sym6 (vxx a + vxx b) (vxy a + vxy b) (vxz a + vxz b)
                        (vyy a + vyy b) (vyz a + vyz b) (vzz a + vzz b)"

instance
  by standard (simp_all add: zero_sym6_def plus_sym6_def)

end

text \<open>
  The first phase, for one thread: \<^verbatim>\<open>m\<close> is the body of the thread inside the block, and
  the thread with lane 0 fills entry \<^verbatim>\<open>m\<close> of the tables.
\<close>

definition setup_thread ::
  "system \<Rightarrow> device \<Rightarrow> nat \<Rightarrow> nat \<Rightarrow> nat \<Rightarrow> nat \<Rightarrow> nat \<Rightarrow> shared \<Rightarrow> shared" where
  "setup_thread sy dv block_dim n_bodies_per_block thread_mask block_idx tid sh =
    (let m = tid div (block_dim div n_bodies_per_block) in
     if (tid AND thread_mask) = 0 then
       (let group_idx = u32 (u32 (block_idx * n_bodies_per_block) + m) in
        if group_idx < n_mol sy then
          (let c = d_molecule_list sy (molecule_indexer sy group_idx 0) in
           sh\<lparr>mol_idx := (mol_idx sh)(m := group_idx),
              central_idx := (central_idx sh)(m := c),
              body_type := (body_type sh)(m := ptype (d_postype dv c)),
              body_orientation := (body_orientation sh)(m := d_orientation dv c)\<rparr>)
        else sh\<lparr>mol_idx := (mol_idx sh)(m := NO_BODY)\<rparr>)
     else sh)"

text \<open>
  One round of the sliding window, for one thread: member \<^verbatim>\<open>k\<close> of the body, if there is
  one and it is not the central particle, goes through the loop body.
\<close>

definition window_member ::
  "(shared \<Rightarrow> nat \<Rightarrow> nat \<Rightarrow> nat \<Rightarrow> 'a \<times> device \<Rightarrow> 'a \<times> device) \<Rightarrow> system \<Rightarrow> shared \<Rightarrow>
   nat \<Rightarrow> nat \<Rightarrow> nat \<Rightarrow> nat \<Rightarrow> nat \<Rightarrow> nat \<Rightarrow> 'a \<times> device \<Rightarrow> 'a \<times> device" where
  "window_member body sy sh window_size thread_mask tid m mol_len start st =
    (let k = u32 (u32 (start * window_size) + (tid AND thread_mask));
         central_tag = d_tag sy (central_idx sh m)
     in if k < mol_len then
          (let pidx = d_molecule_list sy (molecule_indexer sy (mol_idx sh m) k);
               tag = d_tag sy pidx;
               local_idx = usub (usub tag central_tag) 1
           in if pidx \<noteq> central_idx sh m then body sh m pidx local_idx st else st)
        else st)"

text \<open>The loop body of the force kernel (lines 179 to 212).\<close>

fun force_member ::
  "system \<Rightarrow> bool \<Rightarrow> shared \<Rightarrow> nat \<Rightarrow> nat \<Rightarrow> nat \<Rightarrow> force_torque \<times> device \<Rightarrow> force_torque \<times> device" where
  "force_member sy zero_force sh m pidx local_idx (acc, dv) =
    (let particle_pos = d_body_pos sy (body_indexer sy (body_type sh m) local_idx);
         fi = d_net_force dv pidx;
         ti = vec3_of_scalar4 (d_net_torque dv pidx);
         sf = Scalar4 (s4x (sum_force acc) + s4x fi) (s4y (sum_force acc) + s4y fi)
                      (s4z (sum_force acc) + s4z fi) (s4w (sum_force acc) + s4w fi);
         dv1 = (if zero_force
                then dv\<lparr>d_net_force := (d_net_force dv)(pidx := Scalar4 0 0 0 0)\<rparr> else dv);
         ri = rotate (quat_of_scalar4 (body_orientation sh m)) particle_pos;
         del_torque = cross ri (vec3_of_scalar4 fi);
         st = Vec3 (vx (sum_torque acc) + (vx ti + vx del_torque))
                   (vy (sum_torque acc) + (vy ti + vy del_torque))
                   (vz (sum_torque acc) + (vz ti + vz del_torque));
         dv2 = dv1\<lparr>d_net_torque := (d_net_torque dv1)(pidx := Scalar4 0 0 0 0)\<rparr>
     in (Sums sf st, dv2))"

text \<open>
  The virial arrays hold six components, component \<open>c\<close> of particle \<open>i\<close> at
  \<^verbatim>\<open>c*pitch+i\<close>, computed in \<^verbatim>\<open>unsigned int\<close>. The loop body of the virial kernel is
  lines 357 to 384.
\<close>

definition vslot :: "nat \<Rightarrow> nat \<Rightarrow> nat \<Rightarrow> nat" where
  "vslot pitch c i = u32 (u32 (c * pitch) + i)"

fun virial_member ::
  "system \<Rightarrow> nat \<Rightarrow> shared \<Rightarrow> nat \<Rightarrow> nat \<Rightarrow> nat \<Rightarrow> sym6 \<times> device \<Rightarrow> sym6 \<times> device" where
  "virial_member sy net_virial_pitch sh m pidx local_idx (acc, dv) =
    (let particle_pos = d_body_pos sy (body_indexer sy (body_type sh m) local_idx);
         fi = d_net_force dv pidx;
         ri = rotate (quat_of_scalar4 (body_orientation sh m)) particle_pos;
         virialxx = d_net_virial dv (vslot net_virial_pitch 0 pidx);
         virialxy = d_net_virial dv (vslot net_virial_pitch 1 pidx);
         virialxz = d_net_virial dv (vslot net_virial_pitch 2 pidx);
         virialyy = d_net_virial dv (vslot net_virial_pitch 3 pidx);
         virialyz = d_net_virial dv (vslot net_virial_pitch 4 pidx);
         virialzz = d_net_virial dv (vslot net_virial_pitch 5 pidx);
         sv = Sym6 (vxx acc + (virialxx - s4x fi * vx ri))
                   (vxy acc + (virialxy - s4x fi * vy ri))
                   (vxz acc + (virialxz - s4x fi * vz ri))
                   (vyy acc + (virialyy - s4y fi * vy ri))
                   (vyz acc + (virialyz - s4y fi * vz ri))
                   (vzz acc + (virialzz - s4z fi * vz ri));
         dv1 = dv\<lparr>d_net_force := (d_net_force dv)(pidx := Scalar4 0 0 0 0)\<rparr>;
         dv2 = dv1\<lparr>d_net_virial := (d_net_virial dv1)
                  (vslot net_virial_pitch 0 pidx := 0, vslot net_virial_pitch 1 pidx := 0,
                   vslot net_virial_pitch 2 pidx := 0, vslot net_virial_pitch 3 pidx := 0,
                   vslot net_virial_pitch 4 pidx := 0, vslot net_virial_pitch 5 pidx := 0)\<rparr>
     in (sv, dv2))"

text \<open>
  The gather phase of one thread: the registers start at zero, and a body that is absent
  (\<^verbatim>\<open>NO_BODY\<close>) or whose central particle is not local (\<^verbatim>\<open>central_idx[m] >= N\<close>) leaves
  them there.
\<close>

definition gather_thread ::
  "(shared \<Rightarrow> nat \<Rightarrow> nat \<Rightarrow> nat \<Rightarrow> 'a \<times> device \<Rightarrow> 'a \<times> device) \<Rightarrow> system \<Rightarrow> shared \<Rightarrow>
   nat \<Rightarrow> nat \<Rightarrow> nat \<Rightarrow> nat \<Rightarrow> nat \<Rightarrow> device \<Rightarrow> ('a::comm_monoid_add) \<times> device" where
  "gather_thread body sy sh block_dim window_size thread_mask n_bodies_per_block tid dv =
    (let m = tid div (block_dim div n_bodies_per_block) in
     if mol_idx sh m \<noteq> NO_BODY \<and> central_idx sh m < sN sy then
       (let mol_len = d_molecule_len sy (mol_idx sh m);
            n_windows = u32 (mol_len div window_size + 1)
        in fold (window_member body sy sh window_size thread_mask tid m mol_len)
             [0..<n_windows] (0, dv))
     else (0, dv))"

text \<open>
  The partial reductions: in each round the threads whose lane is below \<^verbatim>\<open>offset\<close> add the
  scratch entry \<^verbatim>\<open>offset\<close> places up to their own; the entries read in a round are not
  written in it. Both kernels end with this loop.
\<close>

definition reduce_round :: "nat \<Rightarrow> nat \<Rightarrow> nat \<Rightarrow> (nat \<Rightarrow> 'a::plus) \<Rightarrow> nat \<Rightarrow> 'a" where
  "reduce_round block_dim thread_mask offset scratch =
    (\<lambda>tid. if tid < block_dim \<and> (tid AND thread_mask) < offset
            then scratch tid + scratch (u32 (tid + offset)) else scratch tid)"

function tree_reduce :: "nat \<Rightarrow> nat \<Rightarrow> nat \<Rightarrow> (nat \<Rightarrow> 'a::plus) \<Rightarrow> nat \<Rightarrow> 'a" where
  "tree_reduce block_dim thread_mask offset scratch =
    (if offset > 0
     then tree_reduce block_dim thread_mask (offset div 2)
            (reduce_round block_dim thread_mask offset scratch)
     else scratch)"
  by pat_completeness auto
termination
  by (relation "measure (\<lambda>(b, t, offset, s). offset)") auto

text \<open>The last phase, for one thread: lane 0 of a body that is present stores the total.\<close>

definition writeout_thread ::
  "(nat \<Rightarrow> 'a \<Rightarrow> device \<Rightarrow> device) \<Rightarrow> shared \<Rightarrow> nat \<Rightarrow> nat \<Rightarrow> nat \<Rightarrow> (nat \<Rightarrow> 'a) \<Rightarrow> nat \<Rightarrow>
   device \<Rightarrow> device" where
  "writeout_thread store sh block_dim thread_mask n_bodies_per_block scratch tid dv =
    (let m = tid div (block_dim div n_bodies_per_block) in
     if (tid AND thread_mask) = 0 \<and> mol_idx sh m \<noteq> NO_BODY
     then store (central_idx sh m) (scratch tid) dv else dv)"

definition force_store :: "nat \<Rightarrow> force_torque \<Rightarrow> device \<Rightarrow> device" where
  "force_store c a dv =
     dv\<lparr>d_force := (d_force dv)(c := sum_force a),
        d_torque := (d_torque dv)
           (c := Scalar4 (vx (sum_torque a)) (vy (sum_torque a)) (vz (sum_torque a)) 0)\<rparr>"

definition virial_store :: "nat \<Rightarrow> nat \<Rightarrow> sym6 \<Rightarrow> device \<Rightarrow> device" where
  "virial_store virial_pitch c a dv =
     dv\<lparr>d_virial := (d_virial dv)
           (vslot virial_pitch 0 c := vxx a, vslot virial_pitch 1 c := vxy a,
            vslot virial_pitch 2 c := vxz a, vslot virial_pitch 3 c := vyy a,
            vslot virial_pitch 4 c := vyz a, vslot virial_pitch 5 c := vzz a)\<rparr>"

text \<open>
  One block, and the grid. \<open>sh0\<close> and \<open>scratch0\<close> are the contents of the shared memory of
  a block when it starts, which the source does not initialise.
\<close>

definition gather_phase ::
  "(shared \<Rightarrow> nat \<Rightarrow> nat \<Rightarrow> nat \<Rightarrow> 'a \<times> device \<Rightarrow> 'a \<times> device) \<Rightarrow> system \<Rightarrow> shared \<Rightarrow>
   nat \<Rightarrow> nat \<Rightarrow> nat \<Rightarrow> nat \<Rightarrow> nat \<Rightarrow> (nat \<Rightarrow> 'a) \<times> device \<Rightarrow>
   (nat \<Rightarrow> ('a::comm_monoid_add)) \<times> device" where
  "gather_phase body sy sh block_dim window_size thread_mask n_bodies_per_block tid st =
    (let r = gather_thread body sy sh block_dim window_size thread_mask n_bodies_per_block
               tid (snd st)
     in ((fst st)(tid := fst r), snd r))"

definition sliding_block ::
  "(shared \<Rightarrow> nat \<Rightarrow> nat \<Rightarrow> nat \<Rightarrow> 'a \<times> device \<Rightarrow> 'a \<times> device) \<Rightarrow>
   (nat \<Rightarrow> 'a \<Rightarrow> device \<Rightarrow> device) \<Rightarrow> system \<Rightarrow> nat \<Rightarrow> nat \<Rightarrow> nat \<Rightarrow> nat \<Rightarrow>
   (nat \<Rightarrow> shared) \<Rightarrow> (nat \<Rightarrow> nat \<Rightarrow> ('a::comm_monoid_add)) \<Rightarrow> nat \<Rightarrow> device \<Rightarrow> device" where
  "sliding_block body store sy block_dim window_size thread_mask n_bodies_per_block
     sh0 scratch0 block_idx dv =
    (let sh = fold (setup_thread sy dv block_dim n_bodies_per_block thread_mask block_idx)
                [0..<block_dim] (sh0 block_idx);
         gathered = fold (gather_phase body sy sh block_dim window_size thread_mask
                            n_bodies_per_block)
                      [0..<block_dim] (scratch0 block_idx, dv);
         scratch = tree_reduce block_dim thread_mask (window_size div 2) (fst gathered)
     in fold (writeout_thread store sh block_dim thread_mask n_bodies_per_block scratch)
          [0..<block_dim] (snd gathered))"

definition sliding_grid ::
  "(shared \<Rightarrow> nat \<Rightarrow> nat \<Rightarrow> nat \<Rightarrow> 'a \<times> device \<Rightarrow> 'a \<times> device) \<Rightarrow>
   (nat \<Rightarrow> 'a \<Rightarrow> device \<Rightarrow> device) \<Rightarrow> system \<Rightarrow> nat \<Rightarrow> nat \<Rightarrow> nat \<Rightarrow> nat \<Rightarrow> nat \<Rightarrow>
   (nat \<Rightarrow> shared) \<Rightarrow> (nat \<Rightarrow> nat \<Rightarrow> ('a::comm_monoid_add)) \<Rightarrow> device \<Rightarrow> device" where
  "sliding_grid body store sy grid block_dim window_size thread_mask n_bodies_per_block
     sh0 scratch0 dv =
    fold (sliding_block body store sy block_dim window_size thread_mask n_bodies_per_block
            sh0 scratch0) [0..<grid] dv"

definition gpu_rigid_force_sliding_kernel ::
  "system \<Rightarrow> bool \<Rightarrow> nat \<Rightarrow> nat \<Rightarrow> nat \<Rightarrow> nat \<Rightarrow> nat \<Rightarrow>
   (nat \<Rightarrow> shared) \<Rightarrow> (nat \<Rightarrow> nat \<Rightarrow> force_torque) \<Rightarrow> device \<Rightarrow> device" where
  "gpu_rigid_force_sliding_kernel sy zero_force grid block_dim window_size thread_mask
     n_bodies_per_block sh0 scratch0 dv =
    sliding_grid (force_member sy zero_force) force_store sy grid block_dim window_size
      thread_mask n_bodies_per_block sh0 scratch0 dv"

definition gpu_rigid_virial_sliding_kernel ::
  "system \<Rightarrow> nat \<Rightarrow> nat \<Rightarrow> nat \<Rightarrow> nat \<Rightarrow> nat \<Rightarrow> nat \<Rightarrow> nat \<Rightarrow>
   (nat \<Rightarrow> shared) \<Rightarrow> (nat \<Rightarrow> nat \<Rightarrow> sym6) \<Rightarrow> device \<Rightarrow> device" where
  "gpu_rigid_virial_sliding_kernel sy net_virial_pitch virial_pitch grid block_dim window_size
     thread_mask n_bodies_per_block sh0 scratch0 dv =
    sliding_grid (virial_member sy net_virial_pitch) (virial_store virial_pitch) sy grid
      block_dim window_size thread_mask n_bodies_per_block sh0 scratch0 dv"

section \<open>The host functions \<^verbatim>\<open>gpu_rigid_force\<close> and \<^verbatim>\<open>gpu_rigid_virial\<close>\<close>

text \<open>
  Both host functions reset their output, size the grid and the block, and launch the
  kernel. The block size is the smaller of \<^verbatim>\<open>block_size\<close> and the kernel's
  \<^verbatim>\<open>maxThreadsPerBlock\<close>, rounded down to a power of two and then halved until the scratch
  memory fits. \<^verbatim>\<open>maxThreadsPerBlock\<close>, \<^verbatim>\<open>attr.sharedSizeBytes\<close> and
  \<^verbatim>\<open>dev_prop.sharedMemPerBlock\<close> are hardware attributes and the size of a scratch entry
  depends on the precision of \<^verbatim>\<open>Scalar\<close>: the four are the components of \<open>hardware\<close>.
  Both loops of the source can run forever (the first when doubling wraps to zero, the
  second when even zero bytes do not fit), so they are partial functions and \<open>None\<close> is
  a host function that does not return. A division by zero (no body per block, or a
  window of no thread) is \<open>None\<close> as well.
\<close>

record hardware =
  max_block_size :: nat
  shared_size_bytes :: nat
  shared_mem_per_block :: nat
  scratch_entry_bytes :: nat

partial_function (option) round_down_pow2 :: "nat \<Rightarrow> nat \<Rightarrow> nat option" where
  "round_down_pow2 b run_block_size =
    (if u32 (b * 2) \<le> run_block_size then round_down_pow2 (u32 (b * 2)) run_block_size
     else Some b)"

partial_function (option) fit_shared :: "hardware \<Rightarrow> nat \<Rightarrow> nat option" where
  "fit_shared hw run_block_size =
    (if u32 (run_block_size * scratch_entry_bytes hw) + shared_size_bytes hw
          \<ge> shared_mem_per_block hw
     then fit_shared hw (run_block_size div 2)
     else Some run_block_size)"

definition run_block_size_of :: "hardware \<Rightarrow> nat \<Rightarrow> nat option" where
  "run_block_size_of hw block_size =
    do {
      b \<leftarrow> round_down_pow2 1
             (if max_block_size hw < block_size then max_block_size hw else block_size);
      fit_shared hw b
    }"

definition memset0 :: "(nat \<Rightarrow> 'a::zero) \<Rightarrow> nat \<Rightarrow> nat \<Rightarrow> 'a" where
  "memset0 a n = (\<lambda>i. if i < n then 0 else a i)"

definition gpu_rigid_force ::
  "system \<Rightarrow> hardware \<Rightarrow> nat \<Rightarrow> nat \<Rightarrow> bool \<Rightarrow>
   (nat \<Rightarrow> shared) \<Rightarrow> (nat \<Rightarrow> nat \<Rightarrow> force_torque) \<Rightarrow> device \<Rightarrow> device option" where
  "gpu_rigid_force sy hw n_bodies_per_block block_size zero_force sh0 scratch0 dv =
    (let dv0 = dv\<lparr>d_force := memset0 (d_force dv) (sN sy),
                  d_torque := memset0 (d_torque dv) (sN sy)\<rparr>
     in if n_bodies_per_block = 0 then None
        else do {
          run_block_size \<leftarrow> run_block_size_of hw block_size;
          let force_grid = u32 (n_mol sy div n_bodies_per_block + 1);
          let window_size = run_block_size div n_bodies_per_block;
          let thread_mask = usub window_size 1;
          if window_size = 0 then None
          else Some (gpu_rigid_force_sliding_kernel sy zero_force force_grid run_block_size
                       window_size thread_mask n_bodies_per_block sh0 scratch0 dv0)
        })"

definition gpu_rigid_virial ::
  "system \<Rightarrow> hardware \<Rightarrow> nat \<Rightarrow> nat \<Rightarrow> nat \<Rightarrow> nat \<Rightarrow>
   (nat \<Rightarrow> shared) \<Rightarrow> (nat \<Rightarrow> nat \<Rightarrow> sym6) \<Rightarrow> device \<Rightarrow> device option" where
  "gpu_rigid_virial sy hw n_bodies_per_block net_virial_pitch virial_pitch block_size
     sh0 scratch0 dv =
    (let dv0 = dv\<lparr>d_virial := memset0 (d_virial dv) (virial_pitch * 6)\<rparr>
     in if n_bodies_per_block = 0 then None
        else do {
          run_block_size \<leftarrow> run_block_size_of hw block_size;
          let force_grid = u32 (n_mol sy div n_bodies_per_block + 1);
          let window_size = run_block_size div n_bodies_per_block;
          let thread_mask = usub window_size 1;
          if window_size = 0 then None
          else Some (gpu_rigid_virial_sliding_kernel sy net_virial_pitch virial_pitch force_grid
                       run_block_size window_size thread_mask n_bodies_per_block
                       sh0 scratch0 dv0)
        })"

section \<open>Vocabulary of the statements and of the proofs\<close>

text \<open>
  Member \<open>k\<close> of body \<open>g\<close> is the entry of \<^verbatim>\<open>d_molecule_list\<close> at
  \<^verbatim>\<open>molecule_indexer(g, k)\<close>; member 0 is the central particle. The index of a member in
  the body template is its tag minus the tag of the central particle minus one, in
  \<^verbatim>\<open>unsigned int\<close> arithmetic.
\<close>

definition mol_member :: "system \<Rightarrow> nat \<Rightarrow> nat \<Rightarrow> nat" where
  "mol_member sy g k = d_molecule_list sy (molecule_indexer sy g k)"

definition central :: "system \<Rightarrow> nat \<Rightarrow> nat" where
  "central sy g = mol_member sy g 0"

definition local_index :: "system \<Rightarrow> nat \<Rightarrow> nat \<Rightarrow> nat" where
  "local_index sy g k = usub (usub (d_tag sy (mol_member sy g k)) (d_tag sy (central sy g))) 1"

text \<open>
  The force kernel and the virial kernel differ in the quantity they sum, in the slots they
  zero and in the store at the end. What the proof of the reduction needs of the three is
  collected here: the loop body adds a contribution \<open>c\<close> to the accumulator and zeroes the
  slots of the member by \<open>Z\<close>; zeroing composes; a contribution does not read the zeroed
  slots of another member, nor the output arrays; neither the zeroing nor the store touches
  positions and orientations.
\<close>

definition reducer_ok ::
  "(shared \<Rightarrow> nat \<Rightarrow> nat \<Rightarrow> nat \<Rightarrow> 'a \<times> device \<Rightarrow> 'a \<times> device) \<Rightarrow>
   (nat \<Rightarrow> 'a \<Rightarrow> device \<Rightarrow> device) \<Rightarrow>
   (nat \<Rightarrow> scalar4 \<Rightarrow> nat \<Rightarrow> nat \<Rightarrow> device \<Rightarrow> 'a::comm_monoid_add) \<Rightarrow>
   (nat set \<Rightarrow> device \<Rightarrow> device) \<Rightarrow> nat set \<Rightarrow> bool" where
  "reducer_ok body store c Z Dm \<longleftrightarrow>
    (\<forall>sh m p l acc dv. body sh m p l (acc, dv)
        = (acc + c (body_type sh m) (body_orientation sh m) p l dv, Z {p} dv)) \<and>
    (\<forall>dv. Z {} dv = dv) \<and>
    (\<forall>D E dv. Z D (Z E dv) = Z (D \<union> E) dv) \<and>
    (\<forall>bt bo p l D dv. p \<in> Dm \<longrightarrow> D \<subseteq> Dm \<longrightarrow> p \<notin> D \<longrightarrow> c bt bo p l (Z D dv) = c bt bo p l dv) \<and>
    (\<forall>x a D dv. store x a (Z D dv) = Z D (store x a dv)) \<and>
    (\<forall>x a bt bo p l dv. c bt bo p l (store x a dv) = c bt bo p l dv) \<and>
    (\<forall>D dv. d_postype (Z D dv) = d_postype dv \<and> d_orientation (Z D dv) = d_orientation dv) \<and>
    (\<forall>x a dv. d_postype (store x a dv) = d_postype dv \<and> d_orientation (store x a dv) = d_orientation dv)"

text \<open>
  The members that lane \<open>l\<close> of the window of body \<open>g\<close> visits in its first \<open>n\<close> window
  positions, and the contribution of member \<open>k\<close> (zero for the central particle and past the
  end of the body).
\<close>

definition lane_members :: "system \<Rightarrow> nat \<Rightarrow> nat \<Rightarrow> nat \<Rightarrow> nat \<Rightarrow> nat set" where
  "lane_members sy ws g l n =
     {mol_member sy g k | k. k < d_molecule_len sy g \<and> k mod ws = l \<and> k div ws < n
        \<and> mol_member sy g k \<noteq> central sy g}"

definition member_term ::
  "(nat \<Rightarrow> scalar4 \<Rightarrow> nat \<Rightarrow> nat \<Rightarrow> device \<Rightarrow> 'a::comm_monoid_add) \<Rightarrow> system \<Rightarrow> nat \<Rightarrow> scalar4 \<Rightarrow> device \<Rightarrow> nat \<Rightarrow> nat \<Rightarrow> 'a" where
  "member_term c sy bt bo dv g k =
     (if k < d_molecule_len sy g \<and> mol_member sy g k \<noteq> central sy g
      then c bt bo (mol_member sy g k) (local_index sy g k) dv else 0)"

text \<open>
  The shared memory of block \<open>b\<close> after the leaders have loaded the bodies of the block, as a
  predicate and as the update one leader makes.
\<close>

definition block_loaded :: "system \<Rightarrow> device \<Rightarrow> nat \<Rightarrow> nat \<Rightarrow> shared \<Rightarrow> bool" where
  "block_loaded sy dv nbpb b sh \<longleftrightarrow>
     (\<forall>m<nbpb. if b * nbpb + m < n_mol sy
        then mol_idx sh m = b * nbpb + m \<and> central_idx sh m = central sy (b * nbpb + m)
           \<and> body_type sh m = ptype (d_postype dv (central sy (b * nbpb + m)))
           \<and> body_orientation sh m = d_orientation dv (central sy (b * nbpb + m))
        else mol_idx sh m = NO_BODY)"

definition load_body :: "system \<Rightarrow> device \<Rightarrow> nat \<Rightarrow> nat \<Rightarrow> nat \<Rightarrow> shared \<Rightarrow> shared" where
  "load_body sy dv nbpb b m sh =
     (let group_idx = u32 (u32 (b * nbpb) + m) in
        if group_idx < n_mol sy then
          (let c = d_molecule_list sy (molecule_indexer sy group_idx 0) in
           sh\<lparr>mol_idx := (mol_idx sh)(m := group_idx),
              central_idx := (central_idx sh)(m := c),
              body_type := (body_type sh)(m := ptype (d_postype dv c)),
              body_orientation := (body_orientation sh)(m := d_orientation dv c)\<rparr>)
        else sh\<lparr>mol_idx := (mol_idx sh)(m := NO_BODY)\<rparr>)"

text \<open>
  The member lists a pass is run on: counts that do not wrap in \<^verbatim>\<open>unsigned int\<close>, no particle
  listed twice, and every member inside the arrays that are indexed by it.
\<close>

definition members_ok :: "system \<Rightarrow> nat \<Rightarrow> nat \<Rightarrow> nat set \<Rightarrow> bool" where
  "members_ok sy ws nbpb Dm \<longleftrightarrow>
     n_mol sy + nbpb < 4294967296 \<and>
     (\<forall>g<n_mol sy. d_molecule_len sy g + ws < 4294967296) \<and>
     inj_on (\<lambda>(g, k). mol_member sy g k) {(g, k). g < n_mol sy \<and> k < d_molecule_len sy g} \<and>
     (\<forall>g<n_mol sy. \<forall>k<d_molecule_len sy g. mol_member sy g k \<in> Dm)"

definition members_below :: "system \<Rightarrow> nat \<Rightarrow> nat set" where
  "members_below sy G = {mol_member sy g k | g k. g < G \<and> g < n_mol sy \<and> k < d_molecule_len sy g}"

text \<open>
  A body is processed when its central particle is local; its constituents are its members
  other than the central particle; the folded particles are the constituents of the
  processed bodies.
\<close>

definition active :: "system \<Rightarrow> nat \<Rightarrow> bool" where
  "active sy g \<longleftrightarrow> g < n_mol sy \<and> central sy g < sN sy"

definition constituents :: "system \<Rightarrow> nat \<Rightarrow> nat set" where
  "constituents sy g = {mol_member sy g k | k. k < d_molecule_len sy g \<and> mol_member sy g k \<noteq> central sy g}"

definition folded_below :: "system \<Rightarrow> nat \<Rightarrow> nat set" where
  "folded_below sy G = \<Union> (constituents sy ` {g. g < G \<and> active sy g})"

text \<open>
  What one thread gathers, what one body sums to, and the sequential program that stores
  the total of every body at its central particle.
\<close>

definition thread_members :: "system \<Rightarrow> nat \<Rightarrow> nat \<Rightarrow> nat \<Rightarrow> nat \<Rightarrow> nat set" where
  "thread_members sy ws nbpb b t =
     (if active sy (b * nbpb + t div ws)
      then lane_members sy ws (b * nbpb + t div ws) (t mod ws)
             (d_molecule_len sy (b * nbpb + t div ws) div ws + 1)
      else {})"

definition thread_sum ::
  "(nat \<Rightarrow> scalar4 \<Rightarrow> nat \<Rightarrow> nat \<Rightarrow> device \<Rightarrow> 'a::comm_monoid_add) \<Rightarrow> system \<Rightarrow> device \<Rightarrow> nat \<Rightarrow> nat \<Rightarrow> nat \<Rightarrow> nat \<Rightarrow> 'a" where
  "thread_sum c sy dv ws nbpb b t =
     (if active sy (b * nbpb + t div ws)
      then (\<Sum>s<d_molecule_len sy (b * nbpb + t div ws) div ws + 1.
              member_term c sy (ptype (d_postype dv (central sy (b * nbpb + t div ws))))
                (d_orientation dv (central sy (b * nbpb + t div ws))) dv
                (b * nbpb + t div ws) (s * ws + t mod ws))
      else 0)"

definition body_total ::
  "(nat \<Rightarrow> scalar4 \<Rightarrow> nat \<Rightarrow> nat \<Rightarrow> device \<Rightarrow> 'a::comm_monoid_add) \<Rightarrow> system \<Rightarrow> device \<Rightarrow> nat \<Rightarrow> 'a" where
  "body_total c sy dv g =
     (if central sy g < sN sy
      then (\<Sum>k<d_molecule_len sy g.
              member_term c sy (ptype (d_postype dv (central sy g)))
                (d_orientation dv (central sy g)) dv g k)
      else 0)"

definition store_bodies ::
  "(nat \<Rightarrow> 'a \<Rightarrow> device \<Rightarrow> device) \<Rightarrow> (nat \<Rightarrow> 'a) \<Rightarrow> system \<Rightarrow> nat \<Rightarrow> device \<Rightarrow> device" where
  "store_bodies store tot sy G dv =
     fold (\<lambda>g dv'. if g < n_mol sy then store (central sy g) (tot g) dv' else dv') [0..<G] dv"

definition folded :: "system \<Rightarrow> nat set" where
  "folded sy = \<Union> (constituents sy ` {g. active sy g})"

text \<open>
  The contribution of a constituent to the force pass: its net force, and its net torque plus
  the cross product of its relative position with its net force. After it, the net torque is
  zeroed, and the net force when \<^verbatim>\<open>zero_force\<close> is set.
\<close>

definition force_contrib :: "system \<Rightarrow> nat \<Rightarrow> scalar4 \<Rightarrow> nat \<Rightarrow> nat \<Rightarrow> device \<Rightarrow> force_torque" where
  "force_contrib sy bt bo p l dv =
     Sums (d_net_force dv p)
          (vec3_of_scalar4 (d_net_torque dv p)
           + cross (rotate (quat_of_scalar4 bo) (d_body_pos sy (body_indexer sy bt l)))
                   (vec3_of_scalar4 (d_net_force dv p)))"

definition force_zero :: "bool \<Rightarrow> nat set \<Rightarrow> device \<Rightarrow> device" where
  "force_zero zf D dv =
     dv\<lparr>d_net_force := (\<lambda>p. if zf \<and> p \<in> D then 0 else d_net_force dv p),
        d_net_torque := (\<lambda>p. if p \<in> D then 0 else d_net_torque dv p)\<rparr>"

text \<open>
  The conditions of the statements on the force pass. Every body has at least its central
  particle, no particle is a member twice, and the counts do not wrap; the launch
  configuration is one the host function can size (\<open>n_bodies_per_block\<close> a power of two as
  the window arithmetic requires, and shared memory for at least one thread per body).
\<close>

definition all_members :: "system \<Rightarrow> nat list" where
  "all_members sy =
     concat (map (\<lambda>g. map (mol_member sy g) [0..<d_molecule_len sy g]) [0..<n_mol sy])"

definition molecules_ok :: "system \<Rightarrow> nat \<Rightarrow> nat \<Rightarrow> bool" where
  "molecules_ok sy block_size nbpb \<longleftrightarrow>
     n_mol sy + nbpb < 4294967296 \<and>
     (\<forall>g<n_mol sy. 0 < d_molecule_len sy g \<and> d_molecule_len sy g + block_size < 4294967296) \<and>
     distinct (all_members sy)"

definition sizing_ok :: "hardware \<Rightarrow> nat \<Rightarrow> nat \<Rightarrow> bool" where
  "sizing_ok hw block_size nbpb \<longleftrightarrow>
     nbpb \<in> {1, 2, 4, 8, 16} \<and> nbpb \<le> max_block_size hw \<and> nbpb \<le> block_size \<and>
     block_size < 2147483648 \<and>
     block_size * scratch_entry_bytes hw < 4294967296 \<and>
     nbpb * scratch_entry_bytes hw + shared_size_bytes hw < shared_mem_per_block hw"

text \<open>
  The position of member \<open>k\<close> of body \<open>g\<close> relative to the central particle: its template
  offset rotated by the orientation of the central particle.
\<close>

definition relative_position :: "system \<Rightarrow> device \<Rightarrow> nat \<Rightarrow> nat \<Rightarrow> vec3" where
  "relative_position sy dv g k =
     rotate (quat_of_scalar4 (d_orientation dv (central sy g)))
       (d_body_pos sy (body_indexer sy (ptype (d_postype dv (central sy g))) (local_index sy g k)))"

text \<open>
  The contribution of a constituent to the virial pass: its six net virial components, each
  minus the product of a force component and a component of the relative position. After it,
  the six net virial slots and the net force of the constituent are zeroed.
\<close>

definition virial_contrib :: "system \<Rightarrow> nat \<Rightarrow> nat \<Rightarrow> scalar4 \<Rightarrow> nat \<Rightarrow> nat \<Rightarrow> device \<Rightarrow> sym6" where
  "virial_contrib sy npitch bt bo p l dv =
    (let fi = d_net_force dv p;
         ri = rotate (quat_of_scalar4 bo) (d_body_pos sy (body_indexer sy bt l))
     in Sym6 (d_net_virial dv (vslot npitch 0 p) - s4x fi * vx ri)
             (d_net_virial dv (vslot npitch 1 p) - s4x fi * vy ri)
             (d_net_virial dv (vslot npitch 2 p) - s4x fi * vz ri)
             (d_net_virial dv (vslot npitch 3 p) - s4y fi * vy ri)
             (d_net_virial dv (vslot npitch 4 p) - s4y fi * vz ri)
             (d_net_virial dv (vslot npitch 5 p) - s4z fi * vz ri))"

definition vslots :: "nat \<Rightarrow> nat set \<Rightarrow> nat set" where
  "vslots pitch D = {vslot pitch c p | c p. c < 6 \<and> p \<in> D}"

definition virial_zero :: "nat \<Rightarrow> nat set \<Rightarrow> device \<Rightarrow> device" where
  "virial_zero npitch D dv =
     dv\<lparr>d_net_force := (\<lambda>p. if p \<in> D then 0 else d_net_force dv p),
        d_net_virial := (\<lambda>j. if j \<in> vslots npitch D then 0 else d_net_virial dv j)\<rparr>"

text \<open>
  The pitches of the two virial arrays cover every member, and six rows of either do not
  wrap. \<open>virial_at a pitch i\<close> reads the six components of particle \<open>i\<close>.
\<close>

definition virial_ok :: "system \<Rightarrow> nat \<Rightarrow> nat \<Rightarrow> bool" where
  "virial_ok sy net_virial_pitch virial_pitch \<longleftrightarrow>
     6 * net_virial_pitch \<le> 4294967296 \<and> 6 * virial_pitch \<le> 4294967296 \<and>
     (\<forall>g<n_mol sy. \<forall>k<d_molecule_len sy g.
        mol_member sy g k < net_virial_pitch \<and> mol_member sy g k < virial_pitch)"

definition virial_at :: "(nat \<Rightarrow> real) \<Rightarrow> nat \<Rightarrow> nat \<Rightarrow> sym6" where
  "virial_at a pitch i =
     Sym6 (a (vslot pitch 0 i)) (a (vslot pitch 1 i)) (a (vslot pitch 2 i))
          (a (vslot pitch 3 i)) (a (vslot pitch 4 i)) (a (vslot pitch 5 i))"

text \<open>
  The particles that a thread of \<^verbatim>\<open>gpu_update_composite_kernel\<close> goes on to update: inside
  the \<open>N + n_ghost\<close> entries, with a body tag, past the two guards on the resolved index of
  the central particle, and not the central particle itself. For such a particle,
  \<open>template_index\<close> is the template entry the kernel reads and \<open>spread_target\<close> the wrapped
  position and image it computes.
\<close>

definition processed :: "system \<Rightarrow> bool \<Rightarrow> nat \<Rightarrow> bool" where
  "processed sy remote i \<longleftrightarrow>
     i < u32 (sN sy + n_ghost sy) \<and> d_body sy i \<noteq> NO_BODY \<and>
     (remote \<or> d_rtag sy (d_body sy i) < sN sy) \<and>
     \<not> (d_rtag sy (d_body sy i) = NOT_LOCAL \<and> sN sy \<le> i) \<and>
     i \<noteq> d_rtag sy (d_body sy i)"

definition template_index :: "system \<Rightarrow> device \<Rightarrow> nat \<Rightarrow> nat" where
  "template_index sy s i =
     body_indexer sy (ptype (d_postype s (d_rtag sy (d_body sy i))))
       (usub (usub (d_tag sy i) (d_body sy i)) 1)"

definition spread_target ::
  "system \<Rightarrow> (vec3 \<Rightarrow> int3 \<Rightarrow> vec3 \<times> int3) \<Rightarrow> device \<Rightarrow> nat \<Rightarrow> vec3 \<times> int3" where
  "spread_target sy box_wrap s i =
     box_wrap (vec3_of_postype (d_postype s (d_rtag sy (d_body sy i)))
               + rotate (quat_of_scalar4 (d_orientation s (d_rtag sy (d_body sy i))))
                   (d_body_pos sy (template_index sy s i)))
       (d_image s (d_rtag sy (d_body sy i)))"

text \<open>
  The states a pass of \<^verbatim>\<open>gpu_update_composite\<close> is run on: every body tag is a valid tag,
  and for every processed particle the central particle is resolved inside the arrays, is
  not itself a processed particle, and the template entry exists.
\<close>

definition spread_ok :: "system \<Rightarrow> bool \<Rightarrow> device \<Rightarrow> bool" where
  "spread_ok sy remote s \<longleftrightarrow>
     sN sy + n_ghost sy < 4294967295 \<and>
     (\<forall>i<sN sy + n_ghost sy. d_body sy i \<noteq> NO_BODY \<longrightarrow>
        d_body sy i < rtag_size sy \<and>
        (processed sy remote i \<longrightarrow>
           d_rtag sy (d_body sy i) < sN sy + n_ghost sy \<and>
           template_index sy s i < template_size sy \<and>
           (d_body sy (d_rtag sy (d_body sy i)) = NO_BODY \<or>
            d_rtag sy (d_body sy (d_rtag sy (d_body sy i))) = d_rtag sy (d_body sy i))))"

section \<open>A small system for the concrete instances\<close>

text \<open>
  Four local particles: particle 0 is the central particle of the one body, of type 0,
  particles 1 and 2 are its constituents at the template offsets \<open>(1, 0, 0)\<close> and
  \<open>(0, 1, 0)\<close>, and particle 3 is free. Tags and indices agree. \<open>ex_pair\<close> is the body cut
  down to the central particle and one constituent.
\<close>

definition ex_system :: system where
  "ex_system = \<lparr>sN = 4, n_ghost = 0, n_mol = 1,
     d_body = (\<lambda>i. if i < 3 then 0 else NO_BODY), d_rtag = (\<lambda>t. t), d_tag = (\<lambda>i. i),
     d_molecule_len = (\<lambda>g. 3), d_molecule_list = (\<lambda>i. i),
     molecule_indexer = (\<lambda>g k. k * 1 + g), body_indexer = (\<lambda>bt l. l * 1 + bt),
     d_body_pos = (\<lambda>i. if i = 0 then Vec3 1 0 0 else Vec3 0 1 0),
     d_body_orientation = (\<lambda>i. Scalar4 1 0 0 0), rtag_size = 4, template_size = 2\<rparr>"

definition ex_device :: device where
  "ex_device = \<lparr>d_postype = (\<lambda>i. Postype (real i) 0 0 (if i = 0 then 0 else 1)),
     d_orientation = (\<lambda>i. Scalar4 1 0 0 0), d_image = (\<lambda>i. Int3 0 0 0),
     d_force = (\<lambda>i. Scalar4 9 9 9 9), d_torque = (\<lambda>i. Scalar4 9 9 9 9),
     d_net_force = (\<lambda>i. if i = 1 then Scalar4 1 2 3 4 else if i = 2 then Scalar4 10 20 30 40
                        else Scalar4 100 100 100 100),
     d_net_torque = (\<lambda>i. if i = 1 then Scalar4 0 0 1 0 else Scalar4 0 0 0 0),
     d_virial = (\<lambda>j. 7), d_net_virial = (\<lambda>j. real j)\<rparr>"

definition ex_hardware :: hardware where
  "ex_hardware = \<lparr>max_block_size = 1024, shared_size_bytes = 100,
     shared_mem_per_block = 49152, scratch_entry_bytes = 28\<rparr>"

definition ex_shared :: "nat \<Rightarrow> shared" where
  "ex_shared = (\<lambda>b. \<lparr>mol_idx = (\<lambda>m. 0), central_idx = (\<lambda>m. 0), body_type = (\<lambda>m. 0),
     body_orientation = (\<lambda>m. Scalar4 0 0 0 0)\<rparr>)"

definition ex_pair :: system where
  "ex_pair = ex_system\<lparr>d_body := (\<lambda>i. if i < 2 then 0 else NO_BODY),
     d_molecule_len := (\<lambda>g. 2)\<rparr>"

text \<open>
  Four particles of which three are local and the fourth is a ghost. The ghost, of tag 0, is
  the central particle of the one body; particles 1 and 2 are its constituents and particle
  0 is free.
\<close>

definition ex_ghost :: system where
  "ex_ghost = ex_system\<lparr>sN := 3, n_ghost := 1,
     d_body := (\<lambda>i. if i = 0 then NO_BODY else 0),
     d_rtag := (\<lambda>t. if t = 0 then 3 else if t = 3 then 0 else t),
     d_tag := (\<lambda>i. if i = 3 then 0 else if i = 0 then 3 else i),
     d_molecule_list := (\<lambda>i. if i = 0 then 3 else i)\<rparr>"

text \<open>
  A box of length 10 in \<open>x\<close>, periodic in \<open>x\<close> only; a state with the central particle near
  the upper face; a state with the central particle turned by half a turn about the \<open>x\<close>
  axis. In \<open>ex_orphan\<close> the particles 1 and 2, of tags 8 and 9, are the constituents of a body
  whose central particle, of tag 7, is on no index of this domain; in \<open>ex_orphan_ghost\<close> they
  are ghosts.
\<close>

definition ex_wrap :: "vec3 \<Rightarrow> int3 \<Rightarrow> vec3 \<times> int3" where
  "ex_wrap p im =
     (if 5 \<le> vx p then (Vec3 (vx p - 10) (vy p) (vz p), Int3 (ix im + 1) (iy im) (iz im))
      else if vx p < - 5 then (Vec3 (vx p + 10) (vy p) (vz p), Int3 (ix im - 1) (iy im) (iz im))
      else (p, im))"

definition ex_placed :: device where
  "ex_placed = ex_device\<lparr>d_postype := (\<lambda>i. Postype (if i = 0 then 9 / 2 else real i) 0 0
                                            (if i = 0 then 0 else 1))\<rparr>"

definition ex_turned :: device where
  "ex_turned = ex_device\<lparr>d_orientation := (\<lambda>i. if i = 0 then Scalar4 0 1 0 0 else Scalar4 1 0 0 0)\<rparr>"

definition ex_orphan :: system where
  "ex_orphan = ex_system\<lparr>n_mol := 0,
     d_body := (\<lambda>i. if i = 1 \<or> i = 2 then 7 else NO_BODY),
     d_rtag := (\<lambda>t. if t = 0 then 0 else if t = 8 then 1 else if t = 9 then 2
                     else if t = 3 then 3 else NOT_LOCAL),
     d_tag := (\<lambda>i. if i = 1 then 8 else if i = 2 then 9 else i),
     rtag_size := 10\<rparr>"

definition ex_orphan_ghost :: system where
  "ex_orphan_ghost = ex_orphan\<lparr>sN := 1, n_ghost := 3\<rparr>"

section \<open>Lemmas\<close>

subsection \<open>Unsigned arithmetic and the window mask\<close>

text \<open>
  For a window of \<open>2 ^ j\<close> threads, \<^verbatim>\<open>threadIdx.x & thread_mask\<close> is the lane of the thread
  in its window.
\<close>

lemma u32_id: "n < 4294967296 \<Longrightarrow> u32 n = n"
  by (simp add: u32_def)

lemma pow2_lt: "a < 32 \<Longrightarrow> (2::nat) ^ a < 4294967296"
proof -
  assume a: "a < 32"
  have "(2::nat) ^ a < 2 ^ 32" by (rule power_strict_increasing) (use a in auto)
  then show ?thesis by simp
qed

lemma usub_one_pow2: "a < 32 \<Longrightarrow> usub (2 ^ a) (Suc 0) = 2 ^ a - Suc 0"
proof -
  assume a: "a < 32"
  have lt: "(2::nat) ^ a < 4294967296" using a by (rule pow2_lt)
  have pos: "Suc 0 \<le> 2 ^ a" by simp
  have "usub (2 ^ a) (Suc 0) = (4294967295 + 2 ^ a) mod 4294967296"
    using lt by (simp add: usub_def u32_def add.commute)
  also have "(4294967295 + 2 ^ a) = ((2 ^ a - Suc 0) + (4294967296::nat))"
    using pos by linarith
  also have "((2 ^ a - Suc 0) + (4294967296::nat)) mod 4294967296 = (2 ^ a - Suc 0) mod 4294967296"
    by (rule mod_add_self2)
  also have "\<dots> = 2 ^ a - Suc 0"
    by (rule mod_less) (use lt in linarith)
  finally show ?thesis .
qed

lemma lane_mod: "a < 32 \<Longrightarrow> tid AND usub (2 ^ a) (Suc 0) = tid mod 2 ^ a"
proof -
  assume a: "a < 32"
  have "tid AND mask a = tid mod 2 ^ a"
    by (simp add: take_bit_eq_mod flip: take_bit_eq_mask)
  moreover have "(mask a :: nat) = 2 ^ a - Suc 0"
    by (simp add: mask_eq_exp_minus_1)
  ultimately show ?thesis using usub_one_pow2[OF a] by simp
qed

subsection \<open>The tree reduction\<close>

text \<open>
  After the rounds of the reduction the first entry of every window holds the sum of the
  entries of the window.
\<close>

lemma fold_leaders:
  assumes "0 < ws"
  shows "fold (\<lambda>t s. if t mod ws = 0 then F (t div ws) s else s) [0..<n * ws] s0 = fold F [0..<n] s0"
proof (induction n)
  case 0
  then show ?case by simp
next
  case (Suc n)
  have seg: "fold (\<lambda>t s. if t mod ws = 0 then F (t div ws) s else s) [Suc (n * ws)..<n * ws + j] s1 = s1"
    if "j \<le> ws" for j s1
    using that
  proof (induction j)
    case 0
    then show ?case by simp
  next
    case (Suc j)
    show ?case
    proof (cases "j = 0")
      case True
      then show ?thesis by simp
    next
      case False
      then have "0 < j" "j < ws" using Suc.prems by auto
      then have "(n * ws + j) mod ws \<noteq> 0" by simp
      moreover have "[Suc (n * ws)..<n * ws + Suc j] = [Suc (n * ws)..<n * ws + j] @ [n * ws + j]"
        using \<open>0 < j\<close> by simp
      ultimately show ?thesis using Suc by simp
    qed
  qed
  have split: "[0..<Suc n * ws] = [0..<n * ws] @ (n * ws) # [Suc (n * ws)..<n * ws + ws]"
  proof -
    have "[0..<Suc n * ws] = [0..<n * ws + ws]"
      by (simp add: add.commute)
    also have "\<dots> = [0..<n * ws] @ [n * ws..<n * ws + ws]"
      by (rule upt_add_eq_append) simp
    also have "[n * ws..<n * ws + ws] = (n * ws) # [Suc (n * ws)..<n * ws + ws]"
      using assms by (simp add: upt_conv_Cons)
    finally show ?thesis .
  qed
  show ?case
    unfolding split using assms by (simp add: Suc.IH seg)
qed

lemma tree_reduce_0 [simp]: "tree_reduce bd tm 0 sc = sc"
  by simp

lemma tree_reduce_sum:
  fixes sc :: "nat \<Rightarrow> 'a::comm_monoid_add"
  assumes "a < 32" "j < a" "t0 mod 2 ^ a = 0" "t0 + 2 ^ a \<le> bd" "bd \<le> 4294967296"
  shows "tree_reduce bd (usub (2 ^ a) 1) (2 ^ j) sc t0 = (\<Sum>l<2 ^ Suc j. sc (t0 + l))"
  using assms(2)
proof (induction j arbitrary: sc)
  case 0
  have big: "(2::nat) \<le> 2 ^ a" using 0 by (metis One_nat_def Suc_leI power_increasing power_one_right one_le_numeral)
  have "t0 < bd" "t0 + 1 < 4294967296" using assms(4,5) big by auto
  moreover have "(\<Sum>l<2. sc (t0 + l)) = sc t0 + sc (Suc t0)"
    by (simp add: numeral_2_eq_2)
  ultimately show ?case
    using assms(1,3) by (simp add: reduce_round_def lane_mod u32_id)
next
  case (Suc j)
  let ?r = "reduce_round bd (usub (2 ^ a) 1) (2 ^ Suc j) sc"
  have ja: "j < a" using Suc.prems by simp
  have big: "(2::nat) ^ Suc (Suc j) \<le> 2 ^ a" using Suc.prems by (simp add: Suc_leI power_increasing del: power_Suc)
  have pos: "(0::nat) < 2 ^ Suc j" by simp
  have "tree_reduce bd (usub (2 ^ a) 1) (2 ^ Suc j) sc t0
        = tree_reduce bd (usub (2 ^ a) 1) (2 ^ j) ?r t0"
    by (subst tree_reduce.simps) simp
  also have "\<dots> = (\<Sum>l<2 ^ Suc j. ?r (t0 + l))"
    by (rule Suc.IH[OF ja])
  also have "\<dots> = (\<Sum>l<2 ^ Suc j. sc (t0 + l) + sc (t0 + l + 2 ^ Suc j))"
  proof (rule sum.cong[OF refl])
    fix l assume "l \<in> {..<(2::nat) ^ Suc j}"
    then have l: "l < 2 ^ Suc j" by simp
    then have l2: "l + 2 ^ Suc j < 2 ^ a" using big by simp
    then have la: "l < 2 ^ a" by simp
    have "(t0 + l) mod 2 ^ a = l" using assms(3) la by (simp add: mod_add_left_eq[symmetric] del: power_Suc)
    moreover have "t0 + l < bd" using la assms(4) by simp
    moreover have "t0 + l + 2 ^ Suc j < 4294967296" using l2 assms(4,5) by simp
    ultimately show "?r (t0 + l) = sc (t0 + l) + sc (t0 + l + 2 ^ Suc j)"
      using l assms(1) by (simp add: reduce_round_def lane_mod u32_id del: power_Suc)
  qed
  also have "\<dots> = (\<Sum>l<2 ^ Suc j. sc (t0 + l)) + (\<Sum>l<2 ^ Suc j. sc (t0 + l + 2 ^ Suc j))"
    by (rule sum.distrib)
  also have "(\<Sum>l<2 ^ Suc j. sc (t0 + l + 2 ^ Suc j)) = (\<Sum>l\<in>{2 ^ Suc j..<2 ^ Suc j + 2 ^ Suc j}. sc (t0 + l))"
    by (rule sum.reindex_bij_witness[where i="\<lambda>l. l - 2 ^ Suc j" and j="\<lambda>l. l + 2 ^ Suc j"]) (auto simp: algebra_simps)
  also have "(\<Sum>l<2 ^ Suc j. sc (t0 + l)) + (\<Sum>l\<in>{2 ^ Suc j..<2 ^ Suc j + 2 ^ Suc j}. sc (t0 + l))
             = (\<Sum>l<2 ^ Suc j + 2 ^ Suc j. sc (t0 + l))"
    by (simp add: lessThan_atLeast0 sum.atLeastLessThan_concat del: power_Suc)
  also have "(2::nat) ^ Suc j + 2 ^ Suc j = 2 ^ Suc (Suc j)" by simp
  finally show ?case .
qed

lemma tree_reduce_window:
  fixes sc :: "nat \<Rightarrow> 'a::comm_monoid_add"
  assumes "a < 32" "t0 mod 2 ^ a = 0" "t0 + 2 ^ a \<le> bd" "bd \<le> 4294967296"
  shows "tree_reduce bd (usub (2 ^ a) 1) (2 ^ a div 2) sc t0 = (\<Sum>l<2 ^ a. sc (t0 + l))"
proof (cases a)
  case 0
  then show ?thesis by simp
next
  case (Suc j)
  then have "(2::nat) ^ a div 2 = 2 ^ j" by simp
  then show ?thesis using tree_reduce_sum[OF assms(1) _ assms(2,3,4), of j sc] Suc by simp
qed

subsection \<open>One block\<close>

text \<open>
  The gather of a thread adds up the contributions of the members of its lane and zeroes
  them; the threads of a block visit disjoint members, so the state they leave is the
  initial state with the members of the block zeroed, and every contribution is the one read
  in the initial state.
\<close>

lemma reducer_okD:
  assumes "reducer_ok body store c Z Dm"
  shows "body sh m p l (acc, dv)
        = (acc + c (body_type sh m) (body_orientation sh m) p l dv, Z {p} dv)"
    and "Z {} dv = dv"
    and "Z D (Z E dv) = Z (D \<union> E) dv"
    and "p \<in> Dm \<Longrightarrow> D \<subseteq> Dm \<Longrightarrow> p \<notin> D \<Longrightarrow> c bt bo p l (Z D dv) = c bt bo p l dv"
    and "store x a (Z D dv) = Z D (store x a dv)"
    and "c bt bo p l (store x a dv) = c bt bo p l dv"
    and "d_postype (Z D dv) = d_postype dv"
    and "d_orientation (Z D dv) = d_orientation dv"
    and "d_postype (store x a dv) = d_postype dv"
    and "d_orientation (store x a dv) = d_orientation dv"
  using assms unfolding reducer_ok_def by simp_all

lemma lane_members_Suc:
  assumes "0 < ws" "l < ws"
  shows "lane_members sy ws g l (Suc n) =
     (if n * ws + l < d_molecule_len sy g \<and> mol_member sy g (n * ws + l) \<noteq> central sy g
      then insert (mol_member sy g (n * ws + l)) (lane_members sy ws g l n)
      else lane_members sy ws g l n)"
proof -
  let ?S = "\<lambda>n. {k. k < d_molecule_len sy g \<and> k mod ws = l \<and> k div ws < n
                     \<and> mol_member sy g k \<noteq> central sy g}"
  have img: "lane_members sy ws g l n = mol_member sy g ` ?S n" for n
    by (auto simp: lane_members_def)
  have eqk: "k = n * ws + l" if "k div ws = n" "k mod ws = l" for k
    using that div_mult_mod_eq[of k ws] by auto
  have kn: "(n * ws + l) div ws = n" "(n * ws + l) mod ws = l"
    using assms by simp_all
  have "?S (Suc n) =
     (if n * ws + l < d_molecule_len sy g \<and> mol_member sy g (n * ws + l) \<noteq> central sy g
      then insert (n * ws + l) (?S n) else ?S n)"
    using kn by (auto simp: less_Suc_eq dest: eqk)
  then show ?thesis
    unfolding img by (simp only: image_insert if_distrib[of "(`) (mol_member sy g)"] cong: if_cong)
qed

lemma thread_fold:
  fixes c :: "nat \<Rightarrow> scalar4 \<Rightarrow> nat \<Rightarrow> nat \<Rightarrow> device \<Rightarrow> 'a::comm_monoid_add"
  assumes ok: "reducer_ok body store c Z Dm"
    and sh: "mol_idx sh m = g" "central_idx sh m = central sy g"
    and lane: "tid AND tm = l" "l < ws"
    and len: "d_molecule_len sy g + ws < 4294967296"
    and inj: "inj_on (mol_member sy g) {..<d_molecule_len sy g}"
    and dm: "\<forall>k<d_molecule_len sy g. mol_member sy g k \<in> Dm" "D \<subseteq> Dm"
    and fresh: "\<forall>k<d_molecule_len sy g. k mod ws = l \<longrightarrow> mol_member sy g k \<notin> D"
    and n: "n \<le> d_molecule_len sy g div ws + 1"
  shows "fold (window_member body sy sh ws tm tid m (d_molecule_len sy g)) [0..<n] (a0, Z D dv)
         = (a0 + (\<Sum>s<n. member_term c sy (body_type sh m) (body_orientation sh m) dv g (s * ws + l)),
            Z (D \<union> lane_members sy ws g l n) dv)"
  using n
proof (induction n)
  case 0
  have "lane_members sy ws g l 0 = {}" by (simp add: lane_members_def)
  then show ?case by simp
next
  case (Suc n)
  let ?len = "d_molecule_len sy g"
  let ?k = "n * ws + l"
  have ws: "0 < ws" using lane by simp
  have "n * ws \<le> ?len" using Suc.prems
    by (metis Suc_eq_plus1 Suc_le_mono div_mult_mod_eq le_add1 le_trans mult.commute mult_le_mono2)
  then have kb: "?k < 4294967296" "n * ws < 4294967296" using len lane by auto
  then have k: "u32 (u32 (n * ws) + (tid AND tm)) = ?k" using lane by (simp add: u32_id)
  have IH: "fold (window_member body sy sh ws tm tid m ?len) [0..<n] (a0, Z D dv)
         = (a0 + (\<Sum>s<n. member_term c sy (body_type sh m) (body_orientation sh m) dv g (s * ws + l)),
            Z (D \<union> lane_members sy ws g l n) dv)"
    using Suc by simp
  show ?case
  proof (cases "?k < ?len \<and> mol_member sy g ?k \<noteq> central sy g")
    case False
    then have "lane_members sy ws g l (Suc n) = lane_members sy ws g l n"
      using lane_members_Suc[OF ws lane(2)] by auto
    moreover have "member_term c sy (body_type sh m) (body_orientation sh m) dv g ?k = 0"
      using False by (auto simp: member_term_def)
    moreover have "fold (window_member body sy sh ws tm tid m ?len) [0..<Suc n] (a0, Z D dv)
        = window_member body sy sh ws tm tid m ?len n
            (fold (window_member body sy sh ws tm tid m ?len) [0..<n] (a0, Z D dv))"
      by simp
    moreover have "window_member body sy sh ws tm tid m ?len n st = st" for st
      using False by (auto simp: window_member_def k sh Let_def mol_member_def[symmetric])
    ultimately show ?thesis
      by (simp only: IH sum.lessThan_Suc add_0_right)
  next
    case True
    let ?p = "mol_member sy g ?k"
    let ?D' = "D \<union> lane_members sy ws g l n"
    have lm: "lane_members sy ws g l (Suc n) = insert ?p (lane_members sy ws g l n)"
      using True lane_members_Suc[OF ws lane(2)] by auto
    have pD: "?p \<notin> D" using fresh True lane ws by simp
    have "?p \<notin> lane_members sy ws g l n"
    proof
      assume "?p \<in> lane_members sy ws g l n"
      then obtain k' where k': "k' < ?len" "k' div ws < n" "mol_member sy g k' = ?p"
        by (auto simp: lane_members_def)
      then have "k' = ?k" using inj True by (auto simp: inj_on_def)
      then have "k' div ws = n" using lane ws by simp
      then show False using k' by simp
    qed
    then have fresh': "?p \<notin> ?D'" using pD by simp
    have sub: "?D' \<subseteq> Dm" using dm by (auto simp: lane_members_def)
    have pdm: "?p \<in> Dm" using dm True by simp
    have cl: "c bt bo ?p li (Z ?D' dv) = c bt bo ?p li dv" for bt bo li
      by (rule reducer_okD(4)[OF ok pdm sub fresh'])
    have bd: "body sh m ?p li (acc, Z ?D' dv)
       = (acc + c (body_type sh m) (body_orientation sh m) ?p li dv, Z (insert ?p ?D') dv)" for li acc
      by (simp add: reducer_okD(1,3)[OF ok] cl)
    have mt: "member_term c sy (body_type sh m) (body_orientation sh m) dv g ?k
        = c (body_type sh m) (body_orientation sh m) ?p (local_index sy g ?k) dv"
      using True by (simp add: member_term_def)
    have "fold (window_member body sy sh ws tm tid m ?len) [0..<Suc n] (a0, Z D dv)
        = window_member body sy sh ws tm tid m ?len n
            (fold (window_member body sy sh ws tm tid m ?len) [0..<n] (a0, Z D dv))"
      by simp
    moreover have "window_member body sy sh ws tm tid m ?len n (acc, Z ?D' dv)
       = (acc + c (body_type sh m) (body_orientation sh m) ?p (local_index sy g ?k) dv,
          Z (insert ?p ?D') dv)" for acc
      using True
      by (simp add: window_member_def k sh Let_def mol_member_def[symmetric] bd
           local_index_def)
    ultimately show ?thesis
      by (simp only: IH sum.lessThan_Suc mt lm add.assoc Un_insert_right)
  qed
qed

lemma setup_as_leaders:
  assumes "a < 32" "ws = 2 ^ a" "tm = usub ws 1" "0 < nbpb" "bd = nbpb * ws"
  shows "setup_thread sy dv bd nbpb tm b =
         (\<lambda>t s. if t mod ws = 0 then load_body sy dv nbpb b (t div ws) s else s)"
proof -
  have "bd div nbpb = ws" using assms by simp
  then show ?thesis
    using assms(1,2,3) by (simp add: setup_thread_def load_body_def fun_eq_iff lane_mod Let_def)
qed

lemma load_body_fold:
  assumes "b * nbpb + nbpb \<le> 4294967296" "n \<le> nbpb"
  shows "\<forall>m<n. if b * nbpb + m < n_mol sy
        then mol_idx (fold (load_body sy dv nbpb b) [0..<n] sh0) m = b * nbpb + m
           \<and> central_idx (fold (load_body sy dv nbpb b) [0..<n] sh0) m = central sy (b * nbpb + m)
           \<and> body_type (fold (load_body sy dv nbpb b) [0..<n] sh0) m = ptype (d_postype dv (central sy (b * nbpb + m)))
           \<and> body_orientation (fold (load_body sy dv nbpb b) [0..<n] sh0) m = d_orientation dv (central sy (b * nbpb + m))
        else mol_idx (fold (load_body sy dv nbpb b) [0..<n] sh0) m = NO_BODY"
  using assms(2)
proof (induction n)
  case 0
  then show ?case by simp
next
  case (Suc n)
  have g: "u32 (u32 (b * nbpb) + n) = b * nbpb + n"
    using assms(1) Suc.prems by (simp add: u32_id)
  have IH: "\<forall>m<n. if b * nbpb + m < n_mol sy
        then mol_idx (fold (load_body sy dv nbpb b) [0..<n] sh0) m = b * nbpb + m
           \<and> central_idx (fold (load_body sy dv nbpb b) [0..<n] sh0) m = central sy (b * nbpb + m)
           \<and> body_type (fold (load_body sy dv nbpb b) [0..<n] sh0) m = ptype (d_postype dv (central sy (b * nbpb + m)))
           \<and> body_orientation (fold (load_body sy dv nbpb b) [0..<n] sh0) m = d_orientation dv (central sy (b * nbpb + m))
        else mol_idx (fold (load_body sy dv nbpb b) [0..<n] sh0) m = NO_BODY"
    using Suc by simp
  show ?case
    using IH by (auto simp: load_body_def g Let_def less_Suc_eq central_def mol_member_def)
qed

lemma setup_loaded:
  assumes "a < 32" "ws = 2 ^ a" "tm = usub ws 1" "0 < nbpb" "bd = nbpb * ws"
    and "b * nbpb + nbpb \<le> 4294967296"
  shows "block_loaded sy dv nbpb b (fold (setup_thread sy dv bd nbpb tm b) [0..<bd] sh0)"
proof -
  have ws: "0 < ws" using assms by simp
  have "fold (setup_thread sy dv bd nbpb tm b) [0..<bd] sh0
      = fold (\<lambda>t s. if t mod ws = 0 then load_body sy dv nbpb b (t div ws) s else s) [0..<bd] sh0"
    by (simp only: setup_as_leaders[OF assms(1-5)])
  also have "\<dots> = fold (load_body sy dv nbpb b) [0..<nbpb] sh0"
    unfolding assms(5) by (rule fold_leaders[OF ws])
  finally have "fold (setup_thread sy dv bd nbpb tm b) [0..<bd] sh0 = fold (load_body sy dv nbpb b) [0..<nbpb] sh0" .
  then show ?thesis
    using load_body_fold[OF assms(6) le_refl, of sy dv sh0] by (simp add: block_loaded_def)
qed

lemma writeout_as_leaders:
  assumes "a < 32" "ws = 2 ^ a" "tm = usub ws 1" "0 < nbpb" "bd = nbpb * ws"
  shows "fold (writeout_thread store sh bd tm nbpb scratch) [0..<bd] dv
       = fold (\<lambda>m dv. if mol_idx sh m \<noteq> NO_BODY then store (central_idx sh m) (scratch (m * ws)) dv else dv)
           [0..<nbpb] dv"
proof -
  have ws: "0 < ws" using assms by simp
  have "bd div nbpb = ws" using assms by simp
  then have "writeout_thread store sh bd tm nbpb scratch =
     (\<lambda>t s. if t mod ws = 0 then (\<lambda>m dv. if mol_idx sh m \<noteq> NO_BODY then store (central_idx sh m) (scratch (m * ws)) dv else dv) (t div ws) s else s)"
    using assms(1,2,3) by (auto simp: writeout_thread_def fun_eq_iff lane_mod Let_def)
  then show ?thesis
    using fold_leaders[OF ws, of "\<lambda>m dv. if mol_idx sh m \<noteq> NO_BODY then store (central_idx sh m) (scratch (m * ws)) dv else dv" nbpb dv]
    by (simp add: assms(5))
qed

lemma sum_lanes:
  fixes h :: "nat \<Rightarrow> 'a::comm_monoid_add"
  assumes "0 < ws" "\<And>k. len \<le> k \<Longrightarrow> h k = 0" "len \<le> nw * ws"
  shows "(\<Sum>l<ws. \<Sum>s<nw. h (s * ws + l)) = (\<Sum>k<len. h k)"
proof -
  have "(\<Sum>l<ws. \<Sum>s<nw. h (s * ws + l)) = (\<Sum>s<nw. \<Sum>l<ws. h (s * ws + l))"
    by (rule sum.swap)
  also have "\<dots> = (\<Sum>s<nw. \<Sum>k\<in>{s * ws..<s * ws + ws}. h k)"
  proof (rule sum.cong[OF refl])
    fix s
    show "(\<Sum>l<ws. h (s * ws + l)) = (\<Sum>k\<in>{s * ws..<s * ws + ws}. h k)"
      by (rule sum.reindex_bij_witness[where i="\<lambda>k. k - s * ws" and j="\<lambda>l. s * ws + l"]) auto
  qed
  also have "\<dots> = (\<Sum>k<nw * ws. h k)"
    using sum.nat_group[of h ws nw] assms(1) by (simp add: lessThan_atLeast0)
  also have "\<dots> = (\<Sum>k<len. h k)"
  proof (rule sum.mono_neutral_right)
    show "{..<len} \<subseteq> {..<nw * ws}" using assms(3) by auto
    show "\<forall>i\<in>{..<nw * ws} - {..<len}. h i = 0" using assms(2) by auto
  qed simp
  finally show ?thesis .
qed

lemma members_okD:
  assumes "members_ok sy ws nbpb Dm"
  shows "n_mol sy + nbpb < 4294967296"
    and "g < n_mol sy \<Longrightarrow> d_molecule_len sy g + ws < 4294967296"
    and "g < n_mol sy \<Longrightarrow> k < d_molecule_len sy g \<Longrightarrow> g' < n_mol sy \<Longrightarrow> k' < d_molecule_len sy g'
         \<Longrightarrow> mol_member sy g k = mol_member sy g' k' \<Longrightarrow> g = g' \<and> k = k'"
    and "g < n_mol sy \<Longrightarrow> k < d_molecule_len sy g \<Longrightarrow> mol_member sy g k \<in> Dm"
  using assms unfolding members_ok_def inj_on_def by auto

lemma members_below_Dm:
  assumes "members_ok sy ws nbpb Dm"
  shows "members_below sy G \<subseteq> Dm"
  using members_okD(4)[OF assms] by (auto simp: members_below_def)

lemma thread_members_below:
  "thread_members sy ws nbpb b t \<subseteq> members_below sy (Suc (b * nbpb + t div ws))"
  by (auto simp: thread_members_def members_below_def lane_members_def active_def)

lemma gather_thread_eq:
  fixes c :: "nat \<Rightarrow> scalar4 \<Rightarrow> nat \<Rightarrow> nat \<Rightarrow> device \<Rightarrow> 'a::comm_monoid_add"
  assumes ok: "reducer_ok body store c Z Dm"
    and cfg: "a < 32" "ws = 2 ^ a" "tm = usub ws 1" "0 < nbpb" "bd = nbpb * ws"
    and mem: "members_ok sy ws nbpb Dm"
    and sh: "block_loaded sy dv nbpb b sh"
    and t: "t < bd"
    and D: "D \<subseteq> Dm"
    and fresh: "active sy (b * nbpb + t div ws) \<Longrightarrow>
                \<forall>k<d_molecule_len sy (b * nbpb + t div ws). k mod ws = t mod ws
                  \<longrightarrow> mol_member sy (b * nbpb + t div ws) k \<notin> D"
  shows "gather_thread body sy sh bd ws tm nbpb t (Z D dv)
       = (thread_sum c sy dv ws nbpb b t, Z (D \<union> thread_members sy ws nbpb b t) dv)"
proof -
  let ?m = "t div ws" and ?l = "t mod ws"
  let ?g = "b * nbpb + ?m"
  have ws: "0 < ws" using cfg by simp
  have m: "?m < nbpb" using t cfg ws by (simp add: less_mult_imp_div_less mult.commute)
  have div: "bd div nbpb = ws" using cfg by simp
  have lane: "t AND tm = ?l" using cfg by (simp add: lane_mod)
  have l: "?l < ws" using ws by simp
  show ?thesis
  proof (cases "?g < n_mol sy")
    case False
    then have "mol_idx sh ?m = NO_BODY" using sh m by (auto simp: block_loaded_def)
    moreover have "\<not> active sy ?g" using False by (simp add: active_def)
    ultimately show ?thesis
      by (simp add: gather_thread_def div thread_sum_def thread_members_def)
  next
    case True
    then have shm: "mol_idx sh ?m = ?g" "central_idx sh ?m = central sy ?g"
        "body_type sh ?m = ptype (d_postype dv (central sy ?g))"
        "body_orientation sh ?m = d_orientation dv (central sy ?g)"
      using sh m by (auto simp: block_loaded_def)
    have "?g < 4294967295" using True members_okD(1)[OF mem] cfg(4) by linarith
    then have nb: "?g \<noteq> NO_BODY" by (simp add: NO_BODY_def)
    show ?thesis
    proof (cases "central sy ?g < sN sy")
      case False
      then have "\<not> active sy ?g" by (simp add: active_def)
      then show ?thesis using False
        by (simp add: gather_thread_def div thread_sum_def thread_members_def shm)
    next
      case c: True
      then have act: "active sy ?g" using True by (simp add: active_def)
      let ?len = "d_molecule_len sy ?g"
      have len: "?len + ws < 4294967296" by (rule members_okD(2)[OF mem True])
      then have nw: "u32 (Suc (?len div ws)) = Suc (?len div ws)"
        using div_le_dividend[of ?len ws] ws by (intro u32_id) linarith
      have inj: "inj_on (mol_member sy ?g) {..<?len}"
        using members_okD(3)[OF mem True _ True] by (auto simp: inj_on_def)
      have dm: "\<forall>k<?len. mol_member sy ?g k \<in> Dm"
        using members_okD(4)[OF mem True] by simp
      have "fold (window_member body sy sh ws tm t ?m ?len) [0..<?len div ws + 1] (0, Z D dv)
         = (0 + (\<Sum>s<?len div ws + 1. member_term c sy (body_type sh ?m) (body_orientation sh ?m) dv ?g (s * ws + ?l)),
            Z (D \<union> lane_members sy ws ?g ?l (?len div ws + 1)) dv)"
        by (rule thread_fold[OF ok shm(1,2) lane l len inj dm D fresh[OF act] le_refl])
      moreover have "gather_thread body sy sh bd ws tm nbpb t (Z D dv)
         = fold (window_member body sy sh ws tm t ?m ?len) [0..<?len div ws + 1] (0, Z D dv)"
        using c nb by (simp add: gather_thread_def div shm nw Let_def del: upt_Suc)
      ultimately show ?thesis
        using act by (simp add: thread_sum_def thread_members_def shm del: upt_Suc sum.lessThan_Suc)
    qed
  qed
qed

lemma gather_phase_fold:
  fixes c :: "nat \<Rightarrow> scalar4 \<Rightarrow> nat \<Rightarrow> nat \<Rightarrow> device \<Rightarrow> 'a::comm_monoid_add"
  assumes ok: "reducer_ok body store c Z Dm"
    and cfg: "a < 32" "ws = 2 ^ a" "tm = usub ws 1" "0 < nbpb" "bd = nbpb * ws"
    and mem: "members_ok sy ws nbpb Dm"
    and sh: "block_loaded sy dv nbpb b sh"
    and D: "D \<subseteq> members_below sy (b * nbpb)"
    and n: "n \<le> bd"
  shows "fold (gather_phase body sy sh bd ws tm nbpb) [0..<n] (sc0, Z D dv)
       = ((\<lambda>t. if t < n then thread_sum c sy dv ws nbpb b t else sc0 t),
          Z (D \<union> (\<Union>t<n. thread_members sy ws nbpb b t)) dv)"
  using n
proof (induction n)
  case 0
  then show ?case by simp
next
  case (Suc n)
  let ?D' = "D \<union> (\<Union>t<n. thread_members sy ws nbpb b t)"
  let ?g = "b * nbpb + n div ws"
  have ws: "0 < ws" using cfg by simp
  have n: "n < bd" using Suc.prems by simp
  have IH: "fold (gather_phase body sy sh bd ws tm nbpb) [0..<n] (sc0, Z D dv)
       = ((\<lambda>t. if t < n then thread_sum c sy dv ws nbpb b t else sc0 t), Z ?D' dv)"
    using Suc by simp
  have sub: "?D' \<subseteq> Dm"
    using D members_below_Dm[OF mem] thread_members_below[of sy ws nbpb b] by blast
  have fresh: "\<forall>k<d_molecule_len sy ?g. k mod ws = n mod ws \<longrightarrow> mol_member sy ?g k \<notin> ?D'"
    if act: "active sy ?g"
  proof (intro allI impI notI)
    fix k assume k: "k < d_molecule_len sy ?g" "k mod ws = n mod ws"
      and "mol_member sy ?g k \<in> ?D'"
    have gn: "?g < n_mol sy" using act by (simp add: active_def)
    from \<open>mol_member sy ?g k \<in> ?D'\<close>
    consider "mol_member sy ?g k \<in> D"
      | t where "t < n" "mol_member sy ?g k \<in> thread_members sy ws nbpb b t" by auto
    then show False
    proof cases
      case 1
      then obtain g' k' where g': "g' < b * nbpb" "g' < n_mol sy" "k' < d_molecule_len sy g'"
          "mol_member sy ?g k = mol_member sy g' k'"
        using D by (auto simp: members_below_def)
      show False using members_okD(3)[OF mem gn k(1) g'(2,3,4)] g'(1) by simp
    next
      case 2
      let ?g' = "b * nbpb + t div ws"
      from 2(2) obtain k' where k': "?g' < n_mol sy" "k' < d_molecule_len sy ?g'"
          "k' mod ws = t mod ws" "mol_member sy ?g k = mol_member sy ?g' k'"
        by (auto simp: thread_members_def lane_members_def active_def split: if_splits)
      have "?g = ?g' \<and> k = k'" by (rule members_okD(3)[OF mem gn k(1) k'(1,2,4)])
      then have "t div ws = n div ws" "t mod ws = n mod ws" using k k' by auto
      then have "t = n" by (metis div_mult_mod_eq)
      then show False using 2(1) by simp
    qed
  qed
  have gt: "gather_thread body sy sh bd ws tm nbpb n (Z ?D' dv)
       = (thread_sum c sy dv ws nbpb b n, Z (?D' \<union> thread_members sy ws nbpb b n) dv)"
    by (rule gather_thread_eq[OF ok cfg mem sh n sub fresh])
  have un: "(\<Union>t<Suc n. thread_members sy ws nbpb b t)
     = (\<Union>t<n. thread_members sy ws nbpb b t) \<union> thread_members sy ws nbpb b n"
    by (auto simp: less_Suc_eq)
  have "fold (gather_phase body sy sh bd ws tm nbpb) [0..<Suc n] (sc0, Z D dv)
     = gather_phase body sy sh bd ws tm nbpb n (fold (gather_phase body sy sh bd ws tm nbpb) [0..<n] (sc0, Z D dv))"
    by simp
  also have "\<dots> = gather_phase body sy sh bd ws tm nbpb n
       ((\<lambda>t. if t < n then thread_sum c sy dv ws nbpb b t else sc0 t), Z ?D' dv)"
    by (simp only: IH)
  also have "\<dots> = ((\<lambda>t. if t < Suc n then thread_sum c sy dv ws nbpb b t else sc0 t),
          Z (D \<union> (\<Union>t<Suc n. thread_members sy ws nbpb b t)) dv)"
    unfolding un by (auto simp: gather_phase_def gt fun_eq_iff less_Suc_eq Un_assoc)
  finally show ?case .
qed

lemma folded_below_members: "folded_below sy G \<subseteq> members_below sy G"
  by (auto simp: folded_below_def members_below_def constituents_def active_def)

lemma thread_sum_lanes:
  fixes c :: "nat \<Rightarrow> scalar4 \<Rightarrow> nat \<Rightarrow> nat \<Rightarrow> device \<Rightarrow> 'a::comm_monoid_add"
  assumes ws: "0 < ws" and m: "b * nbpb + m < n_mol sy"
  shows "(\<Sum>l<ws. thread_sum c sy dv ws nbpb b (m * ws + l)) = body_total c sy dv (b * nbpb + m)"
proof -
  let ?g = "b * nbpb + m"
  let ?h = "member_term c sy (ptype (d_postype dv (central sy ?g))) (d_orientation dv (central sy ?g)) dv ?g"
  have dm: "(m * ws + l) div ws = m" "(m * ws + l) mod ws = l" if "l < ws" for l
    using that by simp_all
  show ?thesis
  proof (cases "central sy ?g < sN sy")
    case False
    then show ?thesis using m by (simp add: thread_sum_def active_def body_total_def)
  next
    case True
    then have act: "active sy ?g" using m by (simp add: active_def)
    have "(\<Sum>l<ws. thread_sum c sy dv ws nbpb b (m * ws + l))
        = (\<Sum>l<ws. \<Sum>s<d_molecule_len sy ?g div ws + 1. ?h (s * ws + l))"
      by (rule sum.cong[OF refl]) (simp add: thread_sum_def dm act del: sum.lessThan_Suc)
    also have "\<dots> = (\<Sum>k<d_molecule_len sy ?g. ?h k)"
    proof (rule sum_lanes[OF ws])
      show "?h k = 0" if "d_molecule_len sy ?g \<le> k" for k
        using that by (simp add: member_term_def)
      have "d_molecule_len sy ?g mod ws < ws" using ws by simp
      moreover have "d_molecule_len sy ?g = d_molecule_len sy ?g div ws * ws + d_molecule_len sy ?g mod ws"
        by simp
      ultimately have "d_molecule_len sy ?g \<le> d_molecule_len sy ?g div ws * ws + ws"
        by linarith
      then show "d_molecule_len sy ?g \<le> (d_molecule_len sy ?g div ws + 1) * ws"
        by (simp add: algebra_simps)
    qed
    finally show ?thesis using True by (simp add: body_total_def)
  qed
qed

lemma folded_below_mono: "G \<le> G' \<Longrightarrow> folded_below sy G \<subseteq> folded_below sy G'"
  unfolding folded_below_def by (rule Union_mono, rule image_mono) auto

lemma block_threads_union:
  assumes ws: "0 < ws"
  shows "folded_below sy (b * nbpb) \<union> (\<Union>t<nbpb * ws. thread_members sy ws nbpb b t)
       = folded_below sy (b * nbpb + nbpb)" (is "?L = ?R")
proof (rule set_eqI, rule iffI)
  fix x assume "x \<in> ?L"
  then consider "x \<in> folded_below sy (b * nbpb)"
    | t where "t < nbpb * ws" "x \<in> thread_members sy ws nbpb b t" by auto
  then show "x \<in> ?R"
  proof cases
    case 1
    then show ?thesis using folded_below_mono[of "b * nbpb" "b * nbpb + nbpb" sy] by auto
  next
    case 2
    have "t div ws < nbpb" using 2(1) ws by (simp add: less_mult_imp_div_less)
    then have lt: "b * nbpb + t div ws < b * nbpb + nbpb" by simp
    have act: "active sy (b * nbpb + t div ws)"
      using 2(2) by (auto simp: thread_members_def split: if_splits)
    have xc: "x \<in> constituents sy (b * nbpb + t div ws)"
      using 2(2) by (auto simp: thread_members_def lane_members_def constituents_def split: if_splits)
    show ?thesis unfolding folded_below_def using lt act xc by blast
  qed
next
  fix x assume "x \<in> ?R"
  then obtain g k where g: "g < b * nbpb + nbpb" "active sy g" "k < d_molecule_len sy g"
      "x = mol_member sy g k" "mol_member sy g k \<noteq> central sy g"
    by (auto simp: folded_below_def constituents_def)
  show "x \<in> ?L"
  proof (cases "g < b * nbpb")
    case True
    then show ?thesis using g by (auto simp: folded_below_def constituents_def)
  next
    case False
    define m where "m = g - b * nbpb"
    define t where "t = m * ws + k mod ws"
    have m: "m < nbpb" "g = b * nbpb + m" using False g(1) by (auto simp: m_def)
    have td: "t div ws = m" "t mod ws = k mod ws" using ws by (simp_all add: t_def)
    have "m * ws + k mod ws < m * ws + ws" using ws by simp
    also have "\<dots> = Suc m * ws" by simp
    also have "\<dots> \<le> nbpb * ws" using m(1) by (intro mult_le_mono1) simp
    finally have t: "t < nbpb * ws" by (simp add: t_def)
    have "k div ws < d_molecule_len sy g div ws + 1"
      using g(3) by (simp add: div_le_mono less_Suc_eq_le less_imp_le)
    then have "x \<in> thread_members sy ws nbpb b t"
      using g m(2) td by (auto simp: thread_members_def lane_members_def)
    then show ?thesis using t by auto
  qed
qed

lemma fold_commute_Z:
  assumes "\<And>x s. x \<in> set xs \<Longrightarrow> F x (Z s) = Z (F x s)"
  shows "fold F xs (Z s) = Z (fold F xs s)"
  using assms by (induction xs arbitrary: s) simp_all

lemma sliding_block_eq:
  fixes c :: "nat \<Rightarrow> scalar4 \<Rightarrow> nat \<Rightarrow> nat \<Rightarrow> device \<Rightarrow> 'a::comm_monoid_add"
  assumes ok: "reducer_ok body store c Z Dm"
    and cfg: "a < 32" "ws = 2 ^ a" "tm = usub ws 1" "0 < nbpb" "bd = nbpb * ws"
    and bd: "bd \<le> 4294967296"
    and mem: "members_ok sy ws nbpb Dm"
    and b: "b \<le> n_mol sy div nbpb"
  shows "sliding_block body store sy bd ws tm nbpb sh0 sc0 b (Z (folded_below sy (b * nbpb)) dv)
       = Z (folded_below sy (b * nbpb + nbpb))
           (fold (\<lambda>m dv'. if b * nbpb + m < n_mol sy
                     then store (central sy (b * nbpb + m)) (body_total c sy dv (b * nbpb + m)) dv'
                     else dv') [0..<nbpb] dv)"
proof -
  let ?D = "folded_below sy (b * nbpb)"
  let ?s = "Z ?D dv"
  define sh where "sh = fold (setup_thread sy ?s bd nbpb tm b) [0..<bd] (sh0 b)"
  define gathered where "gathered = fold (gather_phase body sy sh bd ws tm nbpb) [0..<bd] (sc0 b, ?s)"
  define scratch where "scratch = tree_reduce bd tm (ws div 2) (fst gathered)"
  have ws: "0 < ws" using cfg by simp
  have "b * nbpb \<le> n_mol sy" using b
    by (metis div_mult_mod_eq le_add1 le_trans mult.commute mult_le_mono2)
  then have fits: "b * nbpb + nbpb \<le> 4294967296" using members_okD(1)[OF mem] by linarith
  have "block_loaded sy ?s nbpb b sh"
    unfolding sh_def by (rule setup_loaded[OF cfg fits])
  then have sh: "block_loaded sy dv nbpb b sh"
    by (simp add: block_loaded_def reducer_okD(7,8)[OF ok])
  have D: "?D \<subseteq> members_below sy (b * nbpb)" by (rule folded_below_members)
  have g: "gathered = ((\<lambda>t. if t < bd then thread_sum c sy dv ws nbpb b t else sc0 b t),
          Z (?D \<union> (\<Union>t<bd. thread_members sy ws nbpb b t)) dv)"
    unfolding gathered_def by (rule gather_phase_fold[OF ok cfg mem sh D le_refl])
  have D': "?D \<union> (\<Union>t<bd. thread_members sy ws nbpb b t) = folded_below sy (b * nbpb + nbpb)"
    unfolding cfg(5) by (rule block_threads_union[OF ws])
  have sc: "scratch (m * ws) = body_total c sy dv (b * nbpb + m)"
    if m: "m < nbpb" "b * nbpb + m < n_mol sy" for m
  proof -
    have "Suc m * ws \<le> nbpb * ws" using m(1) by (intro mult_le_mono1) simp
    then have le: "m * 2 ^ a + 2 ^ a \<le> bd" using cfg by simp
    have "scratch (m * ws) = (\<Sum>l<2 ^ a. fst gathered (m * ws + l))"
      unfolding scratch_def cfg(2,3)
      by (rule tree_reduce_window[OF cfg(1) _ le bd]) simp
    also have "\<dots> = (\<Sum>l<ws. thread_sum c sy dv ws nbpb b (m * ws + l))"
    proof (unfold cfg(2)[symmetric], rule sum.cong[OF refl])
      fix l assume "l \<in> {..<ws}"
      then have "m * ws + l < bd" using le cfg(2) by simp
      then show "fst gathered (m * ws + l) = thread_sum c sy dv ws nbpb b (m * ws + l)"
        by (simp add: g)
    qed
    also have "\<dots> = body_total c sy dv (b * nbpb + m)"
      by (rule thread_sum_lanes[OF ws m(2)])
    finally show ?thesis .
  qed
  have nb: "mol_idx sh m \<noteq> NO_BODY \<longleftrightarrow> b * nbpb + m < n_mol sy" if "m < nbpb" for m
  proof (cases "b * nbpb + m < n_mol sy")
    case True
    then have "b * nbpb + m < 4294967295" using members_okD(1)[OF mem] cfg(4) by linarith
    then show ?thesis using sh that True by (auto simp: block_loaded_def NO_BODY_def)
  next
    case False
    then show ?thesis using sh that by (auto simp: block_loaded_def)
  qed
  have ci: "central_idx sh m = central sy (b * nbpb + m)" if "m < nbpb" "b * nbpb + m < n_mol sy" for m
    using sh that by (auto simp: block_loaded_def)
  have "sliding_block body store sy bd ws tm nbpb sh0 sc0 b ?s
      = fold (writeout_thread store sh bd tm nbpb scratch) [0..<bd] (snd gathered)"
    by (simp add: sliding_block_def Let_def sh_def gathered_def scratch_def)
  also have "\<dots> = fold (\<lambda>m dv. if mol_idx sh m \<noteq> NO_BODY then store (central_idx sh m) (scratch (m * ws)) dv else dv)
           [0..<nbpb] (snd gathered)"
    by (rule writeout_as_leaders[OF cfg])
  also have "\<dots> = fold (\<lambda>m dv'. if b * nbpb + m < n_mol sy
                     then store (central sy (b * nbpb + m)) (body_total c sy dv (b * nbpb + m)) dv'
                     else dv') [0..<nbpb] (snd gathered)"
    by (rule fold_cong) (auto simp: nb ci sc)
  also have "snd gathered = Z (folded_below sy (b * nbpb + nbpb)) dv"
    by (simp add: g D')
  also have "fold (\<lambda>m dv'. if b * nbpb + m < n_mol sy
                     then store (central sy (b * nbpb + m)) (body_total c sy dv (b * nbpb + m)) dv'
                     else dv') [0..<nbpb] (Z (folded_below sy (b * nbpb + nbpb)) dv)
      = Z (folded_below sy (b * nbpb + nbpb))
           (fold (\<lambda>m dv'. if b * nbpb + m < n_mol sy
                     then store (central sy (b * nbpb + m)) (body_total c sy dv (b * nbpb + m)) dv'
                     else dv') [0..<nbpb] dv)"
    by (rule fold_commute_Z) (simp add: reducer_okD(5)[OF ok])
  finally show ?thesis .
qed

subsection \<open>The grid\<close>

text \<open>
  A launch of the kernel is the sequential program: the totals of the bodies, read in the
  state before the launch, stored at the central particles, and the folded members zeroed.
\<close>

lemma store_bodies_frame:
  assumes ok: "reducer_ok body store c Z Dm"
  shows "c bt bo p l (store_bodies store tot sy G dv) = c bt bo p l dv"
    and "d_postype (store_bodies store tot sy G dv) = d_postype dv"
    and "d_orientation (store_bodies store tot sy G dv) = d_orientation dv"
  unfolding store_bodies_def
  by (induction G) (simp_all add: reducer_okD(6,9,10)[OF ok])

lemma member_term_store:
  assumes ok: "reducer_ok body store c Z Dm"
  shows "member_term c sy bt bo (store_bodies store tot sy G dv) g k = member_term c sy bt bo dv g k"
  by (simp add: member_term_def store_bodies_frame[OF ok])

lemma body_total_store:
  assumes ok: "reducer_ok body store c Z Dm"
  shows "body_total c sy (store_bodies store tot sy G dv) g = body_total c sy dv g"
  by (simp add: body_total_def member_term_store[OF ok] store_bodies_frame[OF ok])

lemma store_bodies_add:
  "fold (\<lambda>m dv'. if n + m < n_mol sy then store (central sy (n + m)) (tot (n + m)) dv' else dv')
     [0..<k] (store_bodies store tot sy n dv) = store_bodies store tot sy (n + k) dv"
  unfolding store_bodies_def
  by (induction k) simp_all

lemma store_bodies_beyond:
  "n_mol sy \<le> G \<Longrightarrow> store_bodies store tot sy G dv = store_bodies store tot sy (n_mol sy) dv"
proof (induction G)
  case 0
  then show ?case by simp
next
  case (Suc G)
  show ?case
  proof (cases "n_mol sy = Suc G")
    case True
    then show ?thesis by simp
  next
    case False
    then have "n_mol sy \<le> G" using Suc.prems by simp
    then show ?thesis using Suc.IH by (simp add: store_bodies_def)
  qed
qed

lemma folded_below_beyond: "n_mol sy \<le> G \<Longrightarrow> folded_below sy G = folded sy"
proof -
  assume "n_mol sy \<le> G"
  then have "{g. g < G \<and> active sy g} = {g. active sy g}"
    by (auto simp: active_def)
  then show ?thesis by (simp add: folded_below_def folded_def)
qed

lemma sliding_grid_upto:
  fixes c :: "nat \<Rightarrow> scalar4 \<Rightarrow> nat \<Rightarrow> nat \<Rightarrow> device \<Rightarrow> 'a::comm_monoid_add"
  assumes ok: "reducer_ok body store c Z Dm"
    and cfg: "a < 32" "ws = 2 ^ a" "tm = usub ws 1" "0 < nbpb" "bd = nbpb * ws"
    and bd: "bd \<le> 4294967296"
    and mem: "members_ok sy ws nbpb Dm"
    and B: "B \<le> n_mol sy div nbpb + 1"
  shows "fold (sliding_block body store sy bd ws tm nbpb sh0 sc0) [0..<B] dv
       = Z (folded_below sy (B * nbpb)) (store_bodies store (body_total c sy dv) sy (B * nbpb) dv)"
  using B
proof (induction B)
  case 0
  have "folded_below sy 0 = {}" by (simp add: folded_below_def)
  then show ?case by (simp add: store_bodies_def reducer_okD(2)[OF ok])
next
  case (Suc B)
  let ?X = "store_bodies store (body_total c sy dv) sy (B * nbpb) dv"
  have b: "B \<le> n_mol sy div nbpb" using Suc.prems by simp
  have IH: "fold (sliding_block body store sy bd ws tm nbpb sh0 sc0) [0..<B] dv
       = Z (folded_below sy (B * nbpb)) ?X"
    using Suc by simp
  have "fold (sliding_block body store sy bd ws tm nbpb sh0 sc0) [0..<Suc B] dv
      = sliding_block body store sy bd ws tm nbpb sh0 sc0 B
          (fold (sliding_block body store sy bd ws tm nbpb sh0 sc0) [0..<B] dv)"
    by simp
  also have "\<dots> = sliding_block body store sy bd ws tm nbpb sh0 sc0 B (Z (folded_below sy (B * nbpb)) ?X)"
    by (simp only: IH)
  also have "\<dots> = Z (folded_below sy (B * nbpb + nbpb))
           (fold (\<lambda>m dv'. if B * nbpb + m < n_mol sy
                     then store (central sy (B * nbpb + m)) (body_total c sy ?X (B * nbpb + m)) dv'
                     else dv') [0..<nbpb] ?X)"
    by (rule sliding_block_eq[OF ok cfg bd mem b])
  also have "\<dots> = Z (folded_below sy (B * nbpb + nbpb))
           (fold (\<lambda>m dv'. if B * nbpb + m < n_mol sy
                     then store (central sy (B * nbpb + m)) (body_total c sy dv (B * nbpb + m)) dv'
                     else dv') [0..<nbpb] ?X)"
    by (simp only: body_total_store[OF ok])
  also have "\<dots> = Z (folded_below sy (B * nbpb + nbpb))
                     (store_bodies store (body_total c sy dv) sy (B * nbpb + nbpb) dv)"
    by (simp only: store_bodies_add)
  also have "B * nbpb + nbpb = Suc B * nbpb" by simp
  finally show ?case .
qed

lemma sliding_grid_eq:
  fixes c :: "nat \<Rightarrow> scalar4 \<Rightarrow> nat \<Rightarrow> nat \<Rightarrow> device \<Rightarrow> 'a::comm_monoid_add"
  assumes ok: "reducer_ok body store c Z Dm"
    and cfg: "a < 32" "ws = 2 ^ a" "tm = usub ws 1" "0 < nbpb" "bd = nbpb * ws"
    and bd: "bd \<le> 4294967296"
    and mem: "members_ok sy ws nbpb Dm"
  shows "sliding_grid body store sy (u32 (n_mol sy div nbpb + 1)) bd ws tm nbpb sh0 sc0 dv
       = Z (folded sy) (store_bodies store (body_total c sy dv) sy (n_mol sy) dv)"
proof -
  let ?B = "n_mol sy div nbpb + 1"
  have "n_mol sy div nbpb \<le> n_mol sy" by simp
  then have "?B < 4294967296" using members_okD(1)[OF mem] cfg(4) by linarith
  then have grid: "u32 ?B = ?B" by (rule u32_id)
  have "n_mol sy mod nbpb < nbpb" using cfg(4) by simp
  moreover have "n_mol sy = n_mol sy div nbpb * nbpb + n_mol sy mod nbpb" by simp
  ultimately have "n_mol sy \<le> n_mol sy div nbpb * nbpb + nbpb" by linarith
  then have ge: "n_mol sy \<le> ?B * nbpb" by (simp add: algebra_simps)
  show ?thesis
    unfolding sliding_grid_def grid
    by (simp only: sliding_grid_upto[OF ok cfg bd mem le_refl] folded_below_beyond[OF ge]
          store_bodies_beyond[OF ge])
qed

subsection \<open>The force pass\<close>

lemma force_reducer_ok:
  "reducer_ok (force_member sy zf) force_store (force_contrib sy) (force_zero zf) UNIV"
  unfolding reducer_ok_def
proof (intro conjI allI impI)
  fix sh m p l acc dv
  show "force_member sy zf sh m p l (acc, dv)
      = (acc + force_contrib sy (body_type sh m) (body_orientation sh m) p l dv, force_zero zf {p} dv)"
    by (cases zf)
       (auto simp: force_contrib_def force_zero_def plus_force_torque_def plus_scalar4_def
          plus_vec3_def zero_scalar4_def Let_def fun_eq_iff)
next
  fix D E dv
  show "force_zero zf D (force_zero zf E dv) = force_zero zf (D \<union> E) dv"
    by (rule device.equality) (auto simp: force_zero_def fun_eq_iff)
qed (auto simp: force_zero_def force_contrib_def force_store_def fun_eq_iff cong: if_cong)

text \<open>Both sizing loops of the host functions return on a launch configuration that is sized.\<close>

lemma round_down_pow2_total:
  assumes "b = 2 ^ k" "b \<le> r" "r < 2147483648"
  shows "\<exists>i. round_down_pow2 b r = Some (2 ^ i) \<and> 2 ^ i \<le> r \<and> r < 2 * 2 ^ i"
  using assms
proof (induction "r - b" arbitrary: b k rule: less_induct)
  case less
  have b2: "b * 2 < 4294967296" using less.prems by simp
  show ?case
  proof (cases "b * 2 \<le> r")
    case True
    have "\<exists>i. round_down_pow2 (b * 2) r = Some (2 ^ i) \<and> 2 ^ i \<le> r \<and> r < 2 * 2 ^ i"
    proof (rule less.hyps[of "b * 2" "Suc k"])
      have "0 < b" using less.prems(1) by simp
      then show "r - b * 2 < r - b" using True by linarith
      show "b * 2 = 2 ^ Suc k" using less.prems by simp
    qed (use True less.prems in auto)
    then show ?thesis
      using True b2 by (subst round_down_pow2.simps) (simp add: u32_id)
  next
    case False
    then show ?thesis
      using b2 less.prems by (subst round_down_pow2.simps) (auto simp: u32_id)
  qed
qed

lemma fit_shared_total:
  assumes "j \<le> i" "2 ^ i * scratch_entry_bytes hw < 4294967296"
    and "2 ^ j * scratch_entry_bytes hw + shared_size_bytes hw < shared_mem_per_block hw"
  shows "\<exists>i'. fit_shared hw (2 ^ i) = Some (2 ^ i') \<and> j \<le> i' \<and> i' \<le> i"
  using assms(1,2)
proof (induction i)
  case 0
  then have "j = 0" by simp
  then show ?case using assms(3) 0
    by (subst fit_shared.simps) (auto simp: u32_id)
next
  case (Suc i)
  show ?case
  proof (cases "u32 (2 ^ Suc i * scratch_entry_bytes hw) + shared_size_bytes hw \<ge> shared_mem_per_block hw")
    case False
    then show ?thesis using Suc.prems
      by (subst fit_shared.simps) (auto simp del: power_Suc)
  next
    case True
    then have "j \<noteq> Suc i" using assms(3) Suc.prems(2) by (auto simp: u32_id simp del: power_Suc)
    then have ji: "j \<le> i" using Suc.prems by simp
    have "(2::nat) ^ i * scratch_entry_bytes hw \<le> 2 ^ Suc i * scratch_entry_bytes hw"
      by (intro mult_le_mono1) simp
    then have "2 ^ i * scratch_entry_bytes hw < 4294967296" using Suc.prems(2) by linarith
    then obtain i' where "fit_shared hw (2 ^ i) = Some (2 ^ i')" "j \<le> i'" "i' \<le> i"
      using Suc.IH[OF ji] by blast
    moreover have "(2::nat) ^ Suc i div 2 = 2 ^ i" by simp
    ultimately show ?thesis using True
      by (subst fit_shared.simps) (auto simp del: power_Suc)
  qed
qed

lemma distinct_concat_upt:
  assumes "distinct (concat (map f [0..<n]))"
  shows "i < n \<Longrightarrow> distinct (f i)"
    and "i < n \<Longrightarrow> j < n \<Longrightarrow> i \<noteq> j \<Longrightarrow> set (f i) \<inter> set (f j) = {}"
  using assms
proof (induction n)
  case 0
  { case 1 then show ?case by simp }
  { case 2 then show ?case by simp }
next
  case (Suc n)
  { case 1
    then show ?case using Suc.IH(1) by (cases "i = n") (auto simp: less_Suc_eq) }
  { case 2
    have d: "distinct (concat (map f [0..<n]))"
      and un: "(\<Union>a\<in>{0..<n}. set (f a)) \<inter> set (f n) = {}"
      using 2(4) by auto
    have dis: "set (f k) \<inter> set (f n) = {}" if "k < n" for k
    proof -
      have "set (f k) \<subseteq> (\<Union>a\<in>{0..<n}. set (f a))" using that by auto
      then show ?thesis using un by blast
    qed
    show ?case
    proof (cases "i = n")
      case True
      then have "j < n" using 2 by simp
      then show ?thesis using dis[of j] True by auto
    next
      case False
      then have i: "i < n" using 2 by simp
      show ?thesis
      proof (cases "j = n")
        case True
        then show ?thesis using dis[OF i] by simp
      next
        case False
        then have "j < n" using 2 by simp
        then show ?thesis using Suc.IH(2)[OF i _ 2(3) d] by simp
      qed
    qed }
qed

lemma all_members_inj:
  assumes "distinct (all_members sy)"
  shows "inj_on (\<lambda>(g, k). mol_member sy g k) {(g, k). g < n_mol sy \<and> k < d_molecule_len sy g}"
proof (rule inj_onI, clarify)
  fix g k g' k'
  assume g: "g < n_mol sy" "k < d_molecule_len sy g" "g' < n_mol sy" "k' < d_molecule_len sy g'"
    and eq: "mol_member sy g k = mol_member sy g' k'"
  let ?f = "\<lambda>g. map (mol_member sy g) [0..<d_molecule_len sy g]"
  have d: "distinct (concat (map ?f [0..<n_mol sy]))" using assms by (simp add: all_members_def)
  have in1: "mol_member sy g k \<in> set (?f g)" using g by auto
  have in2: "mol_member sy g' k' \<in> set (?f g')" using g by auto
  have gg: "g = g'"
  proof (rule ccontr)
    assume ne: "g \<noteq> g'"
    have "set (?f g) \<inter> set (?f g') = {}"
      by (rule distinct_concat_upt(2)[OF d g(1,3) ne])
    then show False using in1 in2 eq by auto
  qed
  have "distinct (?f g)"
    by (rule distinct_concat_upt(1)[OF d g(1)])
  then have "inj_on (mol_member sy g) (set [0..<d_molecule_len sy g])"
    by (simp add: distinct_map)
  then have "k = k'" using g eq gg by (auto simp: inj_on_def)
  then show "g = g' \<and> k = k'" using gg by simp
qed

lemma sizing_pow2:
  assumes "sizing_ok hw block_size nbpb"
  shows "\<exists>j. j \<le> 4 \<and> nbpb = 2 ^ j"
proof -
  have "nbpb \<in> {1, 2, 4, 8, 16}" using assms by (simp add: sizing_ok_def)
  then consider "nbpb = 2 ^ 0" | "nbpb = 2 ^ 1" | "nbpb = 2 ^ 2" | "nbpb = 2 ^ 3" | "nbpb = 2 ^ 4"
    by auto
  then show ?thesis
  proof cases
    case 1 then show ?thesis by (intro exI[of _ 0]) simp
  next
    case 2 then show ?thesis by (intro exI[of _ 1]) simp
  next
    case 3 then show ?thesis by (intro exI[of _ 2]) simp
  next
    case 4 then show ?thesis by (intro exI[of _ 3]) simp
  next
    case 5 then show ?thesis by (intro exI[of _ 4]) simp
  qed
qed

lemma run_block_size_total:
  assumes "sizing_ok hw block_size nbpb"
  shows "\<exists>i j. run_block_size_of hw block_size = Some (2 ^ i) \<and> nbpb = 2 ^ j \<and> j \<le> i
            \<and> 2 ^ i \<le> block_size"
proof -
  obtain j where j: "nbpb = 2 ^ j" using sizing_pow2[OF assms] by blast
  define r where "r = (if max_block_size hw < block_size then max_block_size hw else block_size)"
  have r: "nbpb \<le> r" "r \<le> block_size" "r < 2147483648"
    using assms by (auto simp: r_def sizing_ok_def)
  have "(1::nat) \<le> r" using r(1) j by (metis one_le_numeral one_le_power le_trans)
  then obtain i0 where i0: "round_down_pow2 1 r = Some (2 ^ i0)" "2 ^ i0 \<le> r" "r < 2 * 2 ^ i0"
    using round_down_pow2_total[of 1 0 r] r(3) by auto
  have "(2::nat) ^ j < 2 ^ Suc i0" using j r(1) i0(3) by simp
  then have "j < Suc i0" by (rule power_less_imp_less_exp[rotated]) simp
  then have ji: "j \<le> i0" by simp
  have "2 ^ i0 * scratch_entry_bytes hw \<le> block_size * scratch_entry_bytes hw"
    using i0(2) r(2) by (intro mult_le_mono1) linarith
  moreover have "block_size * scratch_entry_bytes hw < 4294967296"
    using assms by (simp add: sizing_ok_def)
  ultimately have fits: "2 ^ i0 * scratch_entry_bytes hw < 4294967296"
    by linarith
  have small: "2 ^ j * scratch_entry_bytes hw + shared_size_bytes hw < shared_mem_per_block hw"
    using assms j by (simp add: sizing_ok_def)
  obtain i where i: "fit_shared hw (2 ^ i0) = Some (2 ^ i)" "j \<le> i" "i \<le> i0"
    using fit_shared_total[OF ji fits small] by blast
  have "(2::nat) ^ i \<le> 2 ^ i0" using i(3) by (simp add: power_increasing)
  then have "2 ^ i \<le> block_size" using i0(2) r(2) by linarith
  moreover have "run_block_size_of hw block_size = Some (2 ^ i)"
    using i0(1) i(1) by (simp add: run_block_size_of_def r_def[symmetric])
  ultimately show ?thesis
    using j i(2) by blast
qed

lemma molecules_members_ok:
  assumes "molecules_ok sy block_size nbpb" "ws \<le> block_size"
  shows "members_ok sy ws nbpb UNIV"
proof -
  have 1: "n_mol sy + nbpb < 4294967296"
    and 2: "\<And>g. g < n_mol sy \<Longrightarrow> d_molecule_len sy g + block_size < 4294967296"
    and 3: "distinct (all_members sy)"
    using assms(1) by (simp_all add: molecules_ok_def)
  have "d_molecule_len sy g + ws < 4294967296" if "g < n_mol sy" for g
    using 2[OF that] assms(2) by linarith
  then show ?thesis
    unfolding members_ok_def using 1 all_members_inj[OF 3] by simp
qed

lemma body_total_cong:
  assumes "d_net_force dv' = d_net_force dv" "d_net_torque dv' = d_net_torque dv"
    "d_postype dv' = d_postype dv" "d_orientation dv' = d_orientation dv"
  shows "body_total (force_contrib sy) sy dv' g = body_total (force_contrib sy) sy dv g"
  by (simp add: body_total_def member_term_def force_contrib_def assms cong: if_cong)

lemma force_pass_eq:
  assumes sz: "sizing_ok hw block_size nbpb" and mol: "molecules_ok sy block_size nbpb"
  shows "gpu_rigid_force sy hw nbpb block_size zf sh0 sc0 dv =
     Some (force_zero zf (folded sy)
            (store_bodies force_store (body_total (force_contrib sy) sy dv) sy (n_mol sy)
               (dv\<lparr>d_force := memset0 (d_force dv) (sN sy),
                    d_torque := memset0 (d_torque dv) (sN sy)\<rparr>)))"
proof -
  let ?dv0 = "dv\<lparr>d_force := memset0 (d_force dv) (sN sy), d_torque := memset0 (d_torque dv) (sN sy)\<rparr>"
  obtain i j where ij: "run_block_size_of hw block_size = Some (2 ^ i)" "nbpb = 2 ^ j" "j \<le> i"
      "2 ^ i \<le> block_size"
    using run_block_size_total[OF sz] by blast
  define a where "a = i - j"
  define ws where "ws = (2::nat) ^ a"
  have bs: "block_size < 2147483648" using sz by (simp add: sizing_ok_def)
  have nb: "0 < nbpb" using ij by simp
  have "(2::nat) ^ i = 2 ^ (j + (i - j))" using ij(3) by simp
  then have bd: "(2::nat) ^ i = nbpb * ws"
    unfolding ws_def a_def ij(2) by (simp only: power_add)
  then have div: "2 ^ i div nbpb = ws" using nb by simp
  have "(2::nat) ^ i < 2 ^ 31" using ij(4) bs by simp
  then have "i < 31" by (rule power_less_imp_less_exp[rotated]) simp
  then have a: "a < 32" by (simp add: a_def)
  have "ws \<le> nbpb * ws" using nb by simp
  then have wsle: "ws \<le> block_size" using bd ij(4) by linarith
  have bdle: "(2::nat) ^ i \<le> 4294967296" using ij(4) bs by simp
  have mem: "members_ok sy ws nbpb UNIV" by (rule molecules_members_ok[OF mol wsle])
  have ws0: "ws \<noteq> 0" by (simp add: ws_def)
  have "sliding_grid (force_member sy zf) force_store sy (u32 (n_mol sy div nbpb + 1)) (2 ^ i) ws
          (usub ws 1) nbpb sh0 sc0 ?dv0
       = force_zero zf (folded sy)
           (store_bodies force_store (body_total (force_contrib sy) sy ?dv0) sy (n_mol sy) ?dv0)"
    by (rule sliding_grid_eq[OF force_reducer_ok a ws_def refl nb bd bdle mem])
  moreover have "body_total (force_contrib sy) sy ?dv0 = body_total (force_contrib sy) sy dv"
    by (rule ext, rule body_total_cong) simp_all
  moreover have "gpu_rigid_force sy hw nbpb block_size zf sh0 sc0 dv
      = Some (gpu_rigid_force_sliding_kernel sy zf (u32 (n_mol sy div nbpb + 1)) (2 ^ i) ws
               (usub ws 1) nbpb sh0 sc0 ?dv0)"
    using nb ws0 by (simp add: gpu_rigid_force_def ij(1) div Let_def)
  ultimately show ?thesis
    by (simp only: gpu_rigid_force_sliding_kernel_def)
qed

text \<open>The two components of the total of a body, and what is stored where.\<close>

lemma sum_force_sum: "sum_force (sum f A) = (\<Sum>x\<in>A. sum_force (f x))"
  by (induction A rule: infinite_finite_induct)
     (simp_all add: zero_force_torque_def plus_force_torque_def)

lemma sum_torque_sum: "sum_torque (sum f A) = (\<Sum>x\<in>A. sum_torque (f x))"
  by (induction A rule: infinite_finite_induct)
     (simp_all add: zero_force_torque_def plus_force_torque_def)

lemma member_term_force:
  "sum_force (member_term (force_contrib sy) sy bt bo dv g k)
     = (if k < d_molecule_len sy g \<and> mol_member sy g k \<noteq> central sy g
        then d_net_force dv (mol_member sy g k) else 0)"
  "sum_torque (member_term (force_contrib sy) sy bt bo dv g k)
     = (if k < d_molecule_len sy g \<and> mol_member sy g k \<noteq> central sy g
        then vec3_of_scalar4 (d_net_torque dv (mol_member sy g k))
             + cross (rotate (quat_of_scalar4 bo)
                        (d_body_pos sy (body_indexer sy bt (local_index sy g k))))
                 (vec3_of_scalar4 (d_net_force dv (mol_member sy g k)))
        else 0)"
  by (simp_all add: member_term_def force_contrib_def zero_force_torque_def)

lemma body_total_force:
  assumes "central sy g < sN sy"
  shows "sum_force (body_total (force_contrib sy) sy dv g)
       = (\<Sum>k<d_molecule_len sy g. if mol_member sy g k \<noteq> central sy g
             then d_net_force dv (mol_member sy g k) else 0)"
proof -
  have "sum_force (body_total (force_contrib sy) sy dv g)
      = (\<Sum>k<d_molecule_len sy g. sum_force (member_term (force_contrib sy) sy
            (ptype (d_postype dv (central sy g))) (d_orientation dv (central sy g)) dv g k))"
    using assms by (simp only: body_total_def if_True sum_force_sum)
  also have "\<dots> = (\<Sum>k<d_molecule_len sy g. if mol_member sy g k \<noteq> central sy g
             then d_net_force dv (mol_member sy g k) else 0)"
    by (rule sum.cong[OF refl]) (simp add: member_term_force)
  finally show ?thesis .
qed

lemma body_total_torque:
  assumes "central sy g < sN sy"
  shows "sum_torque (body_total (force_contrib sy) sy dv g)
       = (\<Sum>k<d_molecule_len sy g. if mol_member sy g k \<noteq> central sy g
             then vec3_of_scalar4 (d_net_torque dv (mol_member sy g k))
                  + cross (relative_position sy dv g k)
                      (vec3_of_scalar4 (d_net_force dv (mol_member sy g k)))
             else 0)"
proof -
  have "sum_torque (body_total (force_contrib sy) sy dv g)
      = (\<Sum>k<d_molecule_len sy g. sum_torque (member_term (force_contrib sy) sy
            (ptype (d_postype dv (central sy g))) (d_orientation dv (central sy g)) dv g k))"
    using assms by (simp only: body_total_def if_True sum_torque_sum)
  also have "\<dots> = (\<Sum>k<d_molecule_len sy g. if mol_member sy g k \<noteq> central sy g
             then vec3_of_scalar4 (d_net_torque dv (mol_member sy g k))
                  + cross (relative_position sy dv g k)
                      (vec3_of_scalar4 (d_net_force dv (mol_member sy g k)))
             else 0)"
    by (rule sum.cong[OF refl]) (simp add: member_term_force relative_position_def)
  finally show ?thesis .
qed

lemma body_total_inactive:
  "\<not> central sy g < sN sy \<Longrightarrow> body_total c sy dv g = 0"
  by (simp add: body_total_def)

lemma store_bodies_Suc:
  "store_bodies store tot sy (Suc G) dv =
     (if G < n_mol sy then store (central sy G) (tot G) (store_bodies store tot sy G dv)
      else store_bodies store tot sy G dv)"
  by (simp add: store_bodies_def)

lemma store_bodies_0: "store_bodies store tot sy 0 dv = dv"
  by (simp add: store_bodies_def)

lemma store_bodies_force_other:
  assumes "\<forall>g<G. g < n_mol sy \<longrightarrow> central sy g \<noteq> i"
  shows "d_force (store_bodies force_store tot sy G dv) i = d_force dv i"
    and "d_torque (store_bodies force_store tot sy G dv) i = d_torque dv i"
  using assms
  by (induction G) (auto simp: store_bodies_0 store_bodies_Suc force_store_def)

lemma store_bodies_force_net:
  "d_net_force (store_bodies force_store tot sy G dv) = d_net_force dv"
  "d_net_torque (store_bodies force_store tot sy G dv) = d_net_torque dv"
  by (induction G) (simp_all add: store_bodies_0 store_bodies_Suc force_store_def)

lemma store_bodies_force_central:
  assumes "g < G" "g < n_mol sy"
    and "\<forall>g'<n_mol sy. g' \<noteq> g \<longrightarrow> central sy g' \<noteq> central sy g"
  shows "d_force (store_bodies force_store tot sy G dv) (central sy g) = sum_force (tot g)"
    and "d_torque (store_bodies force_store tot sy G dv) (central sy g)
         = Scalar4 (vx (sum_torque (tot g))) (vy (sum_torque (tot g))) (vz (sum_torque (tot g))) 0"
  using assms(1)
proof (induction G)
  case 0
  { case 1 then show ?case by simp }
  { case 2 then show ?case by simp }
next
  case (Suc G)
  { case 1
    show ?case
    proof (cases "g = G")
      case True
      then show ?thesis using assms(2) by (simp add: store_bodies_Suc force_store_def)
    next
      case False
      then have "g < G" using 1 by simp
      then show ?thesis using Suc.IH(1) assms(3) False
        by (auto simp: store_bodies_Suc force_store_def)
    qed }
  { case 2
    show ?case
    proof (cases "g = G")
      case True
      then show ?thesis using assms(2) by (simp add: store_bodies_Suc force_store_def)
    next
      case False
      then have "g < G" using 2 by simp
      then show ?thesis using Suc.IH(2) assms(3) False
        by (auto simp: store_bodies_Suc force_store_def)
    qed }
qed

lemma molecules_inj:
  assumes "molecules_ok sy block_size nbpb"
    and "g < n_mol sy" "k < d_molecule_len sy g" "g' < n_mol sy" "k' < d_molecule_len sy g'"
    and "mol_member sy g k = mol_member sy g' k'"
  shows "g = g' \<and> k = k'"
proof -
  have "members_ok sy 0 nbpb UNIV" by (rule molecules_members_ok[OF assms(1)]) simp
  then show ?thesis by (rule members_okD(3)[OF _ assms(2-6)])
qed

lemma centrals_distinct:
  assumes "molecules_ok sy block_size nbpb" "g < n_mol sy" "g' < n_mol sy" "g' \<noteq> g"
  shows "central sy g' \<noteq> central sy g"
proof
  assume eq: "central sy g' = central sy g"
  have len: "0 < d_molecule_len sy g" "0 < d_molecule_len sy g'"
    using assms by (simp_all add: molecules_ok_def)
  have "mol_member sy g' 0 = mol_member sy g 0" using eq by (simp add: central_def)
  then have "g' = g \<and> (0::nat) = 0"
    by (rule molecules_inj[OF assms(1,3) len(2) assms(2) len(1)])
  then show False using assms(4) by simp
qed

lemma constituent_not_central:
  assumes "molecules_ok sy block_size nbpb" "g < n_mol sy" "k < d_molecule_len sy g" "k \<noteq> 0"
  shows "mol_member sy g k \<noteq> central sy g"
proof
  assume eq: "mol_member sy g k = central sy g"
  have len: "0 < d_molecule_len sy g"
    using assms by (simp_all add: molecules_ok_def)
  have "mol_member sy g k = mol_member sy g 0" using eq by (simp add: central_def)
  then have "g = g \<and> k = 0"
    by (rule molecules_inj[OF assms(1,2,3) assms(2) len])
  then show False using assms(4) by simp
qed

lemma sum_two_members:
  fixes f :: "nat \<Rightarrow> 'a::comm_monoid_add"
  shows "(\<Sum>k<2. f k) = f 0 + f 1"
  by (simp add: numeral_2_eq_2)

subsection \<open>The virial pass\<close>

lemma vslot_plain:
  assumes "6 * pitch \<le> 4294967296" "c < 6" "i < pitch"
  shows "vslot pitch c i = c * pitch + i"
proof -
  have a: "Suc c * pitch \<le> 6 * pitch" by (rule mult_le_mono1) (use assms(2) in simp)
  have b: "Suc c * pitch = c * pitch + pitch" by simp
  have "c * pitch + i < 4294967296" "c * pitch < 4294967296" using a b assms(1,3) by linarith+
  then show ?thesis by (simp add: vslot_def u32_id)
qed

lemma vslot_inj:
  assumes "6 * pitch \<le> 4294967296" "c < 6" "i < pitch" "c' < 6" "j < pitch"
    and "vslot pitch c i = vslot pitch c' j"
  shows "c = c' \<and> i = j"
proof -
  have eq: "c * pitch + i = c' * pitch + j"
    using assms(6) by (simp add: vslot_plain[OF assms(1,2,3)] vslot_plain[OF assms(1,4,5)])
  have "(c * pitch + i) div pitch = c" "(c' * pitch + j) div pitch = c'"
       "(c * pitch + i) mod pitch = i" "(c' * pitch + j) mod pitch = j"
    using assms(3,5) by simp_all
  then show ?thesis using eq by metis
qed

lemma vslots_singleton:
  "vslots pitch {p} = {vslot pitch 0 p, vslot pitch 1 p, vslot pitch 2 p, vslot pitch 3 p,
                       vslot pitch 4 p, vslot pitch 5 p}"
proof -
  have "c < 6 \<longleftrightarrow> c = 0 \<or> c = 1 \<or> c = 2 \<or> c = 3 \<or> c = 4 \<or> c = 5" for c :: nat
    by auto
  then show ?thesis unfolding vslots_def by auto
qed

lemma vslots_Un: "vslots pitch (D \<union> E) = vslots pitch D \<union> vslots pitch E"
  unfolding vslots_def by auto

lemma vslots_fresh:
  assumes "6 * pitch \<le> 4294967296" "p < pitch" "D \<subseteq> {p. p < pitch}" "p \<notin> D" "c < 6"
  shows "vslot pitch c p \<notin> vslots pitch D"
proof
  assume "vslot pitch c p \<in> vslots pitch D"
  then obtain c' q where q: "c' < 6" "q \<in> D" "vslot pitch c p = vslot pitch c' q"
    unfolding vslots_def by blast
  then have "q < pitch" using assms(3) by auto
  then have "p = q" using vslot_inj[OF assms(1,5,2) q(1) _ q(3)] by simp
  then show False using q(2) assms(4) by simp
qed

lemma virial_reducer_ok:
  assumes "6 * npitch \<le> 4294967296"
  shows "reducer_ok (virial_member sy npitch) (virial_store vpitch) (virial_contrib sy npitch)
           (virial_zero npitch) {p. p < npitch}"
  unfolding reducer_ok_def
proof (intro conjI allI impI)
  fix sh m p l acc dv
  show "virial_member sy npitch sh m p l (acc, dv)
      = (acc + virial_contrib sy npitch (body_type sh m) (body_orientation sh m) p l dv,
         virial_zero npitch {p} dv)"
    by (auto simp: virial_contrib_def virial_zero_def plus_sym6_def Let_def vslots_singleton
          zero_scalar4_def fun_eq_iff intro!: device.equality)
next
  fix D E dv
  show "virial_zero npitch D (virial_zero npitch E dv) = virial_zero npitch (D \<union> E) dv"
    by (rule device.equality) (auto simp: virial_zero_def fun_eq_iff vslots_Un)
next
  fix bt bo p l D dv
  assume p: "p \<in> {p. p < npitch}" and D: "D \<subseteq> {p. p < npitch}" and f: "p \<notin> D"
  have "vslot npitch c p \<notin> vslots npitch D" if "c < 6" for c
    using vslots_fresh[OF assms _ D f that] p by simp
  then show "virial_contrib sy npitch bt bo p l (virial_zero npitch D dv)
           = virial_contrib sy npitch bt bo p l dv"
    using f by (simp add: virial_contrib_def virial_zero_def)
qed (auto simp: virial_zero_def virial_contrib_def virial_store_def vslots_def fun_eq_iff cong: if_cong)

lemma launch_geometry:
  assumes "sizing_ok hw block_size nbpb"
  obtains i a where "run_block_size_of hw block_size = Some (2 ^ i)" "a < 32"
    "2 ^ i = nbpb * 2 ^ a" "2 ^ i div nbpb = 2 ^ a" "2 ^ a \<le> block_size"
    "(2::nat) ^ i \<le> 4294967296" "0 < nbpb"
proof -
  obtain i j where ij: "run_block_size_of hw block_size = Some (2 ^ i)" "nbpb = 2 ^ j" "j \<le> i"
      "2 ^ i \<le> block_size"
    using run_block_size_total[OF assms] by blast
  have bs: "block_size < 2147483648" using assms by (simp add: sizing_ok_def)
  have nb: "0 < nbpb" using ij by simp
  have "(2::nat) ^ i = 2 ^ (j + (i - j))" using ij(3) by simp
  then have bd: "(2::nat) ^ i = nbpb * 2 ^ (i - j)"
    unfolding ij(2) by (simp only: power_add)
  then have div: "2 ^ i div nbpb = 2 ^ (i - j)" using nb by simp
  have "(2::nat) ^ i < 2 ^ 31" using ij(4) bs by simp
  then have "i < 31" by (rule power_less_imp_less_exp[rotated]) simp
  then have a: "i - j < 32" by simp
  have "(2::nat) ^ (i - j) \<le> nbpb * 2 ^ (i - j)" using nb by simp
  then have wsle: "2 ^ (i - j) \<le> block_size" using bd ij(4) by linarith
  have bdle: "(2::nat) ^ i \<le> 4294967296" using ij(4) bs by simp
  show ?thesis by (rule that[OF ij(1) a bd div wsle bdle nb])
qed

lemma virial_members_ok:
  assumes "molecules_ok sy block_size nbpb" "ws \<le> block_size"
    and "virial_ok sy npitch vpitch"
  shows "members_ok sy ws nbpb {p. p < npitch}"
proof -
  have "members_ok sy ws nbpb UNIV" by (rule molecules_members_ok[OF assms(1,2)])
  then show ?thesis using assms(3) by (simp add: members_ok_def virial_ok_def)
qed

lemma virial_total_cong:
  assumes "d_net_force dv' = d_net_force dv" "d_net_virial dv' = d_net_virial dv"
    "d_postype dv' = d_postype dv" "d_orientation dv' = d_orientation dv"
  shows "body_total (virial_contrib sy npitch) sy dv' g = body_total (virial_contrib sy npitch) sy dv g"
  by (simp add: body_total_def member_term_def virial_contrib_def assms cong: if_cong)

lemma virial_pass_eq:
  assumes sz: "sizing_ok hw block_size nbpb" and mol: "molecules_ok sy block_size nbpb"
    and vo: "virial_ok sy npitch vpitch"
  shows "gpu_rigid_virial sy hw nbpb npitch vpitch block_size sh0 sc0 dv =
     Some (virial_zero npitch (folded sy)
            (store_bodies (virial_store vpitch) (body_total (virial_contrib sy npitch) sy dv) sy
               (n_mol sy) (dv\<lparr>d_virial := memset0 (d_virial dv) (vpitch * 6)\<rparr>)))"
proof -
  let ?dv0 = "dv\<lparr>d_virial := memset0 (d_virial dv) (vpitch * 6)\<rparr>"
  obtain i a where g: "run_block_size_of hw block_size = Some (2 ^ i)" "a < 32"
    "2 ^ i = nbpb * 2 ^ a" "2 ^ i div nbpb = 2 ^ a" "2 ^ a \<le> block_size"
    "(2::nat) ^ i \<le> 4294967296" "0 < nbpb"
    by (rule launch_geometry[OF sz])
  have np: "6 * npitch \<le> 4294967296" using vo by (simp add: virial_ok_def)
  have mem: "members_ok sy (2 ^ a) nbpb {p. p < npitch}"
    by (rule virial_members_ok[OF mol g(5) vo])
  have "sliding_grid (virial_member sy npitch) (virial_store vpitch) sy (u32 (n_mol sy div nbpb + 1))
          (2 ^ i) (2 ^ a) (usub (2 ^ a) 1) nbpb sh0 sc0 ?dv0
       = virial_zero npitch (folded sy)
           (store_bodies (virial_store vpitch) (body_total (virial_contrib sy npitch) sy ?dv0) sy
              (n_mol sy) ?dv0)"
    by (rule sliding_grid_eq[OF virial_reducer_ok[OF np] g(2) refl refl g(7) g(3) g(6) mem])
  moreover have "body_total (virial_contrib sy npitch) sy ?dv0 = body_total (virial_contrib sy npitch) sy dv"
    by (rule ext, rule virial_total_cong) simp_all
  moreover have "gpu_rigid_virial sy hw nbpb npitch vpitch block_size sh0 sc0 dv
      = Some (gpu_rigid_virial_sliding_kernel sy npitch vpitch (u32 (n_mol sy div nbpb + 1)) (2 ^ i)
               (2 ^ a) (usub (2 ^ a) 1) nbpb sh0 sc0 ?dv0)"
    using g(7) by (simp add: gpu_rigid_virial_def g(1,4) Let_def)
  ultimately show ?thesis
    by (simp only: gpu_rigid_virial_sliding_kernel_def)
qed

lemma vslot_eq_iff:
  assumes "6 * pitch \<le> 4294967296" "i < pitch" "j < pitch" "c < 6" "c' < 6"
  shows "vslot pitch c i = vslot pitch c' j \<longleftrightarrow> c = c' \<and> i = j"
  using vslot_inj[OF assms(1,4,2,5,3)] by auto

lemma virial_store_read:
  assumes "6 * vp \<le> 4294967296" "c < vp"
  shows "virial_at (d_virial (virial_store vp c a dv)) vp c = a"
  by (simp add: virial_at_def virial_store_def vslot_eq_iff[OF assms(1,2,2)])

lemma virial_store_other:
  assumes "6 * vp \<le> 4294967296" "c < vp" "c' < vp" "c \<noteq> c'"
  shows "virial_at (d_virial (virial_store vp c' a dv)) vp c = virial_at (d_virial dv) vp c"
  using assms(4)
  by (simp add: virial_at_def virial_store_def vslot_eq_iff[OF assms(1,2,3)])

lemma store_bodies_virial_central:
  assumes vp: "6 * vp \<le> 4294967296" and g: "g < G" "g < n_mol sy"
    and c: "\<forall>g'<n_mol sy. central sy g' < vp"
    and dis: "\<forall>g'<n_mol sy. g' \<noteq> g \<longrightarrow> central sy g' \<noteq> central sy g"
  shows "virial_at (d_virial (store_bodies (virial_store vp) tot sy G dv)) vp (central sy g) = tot g"
  using g(1)
proof (induction G)
  case 0
  then show ?case by simp
next
  case (Suc G)
  have cg: "central sy g < vp" using c g(2) by simp
  show ?case
  proof (cases "g = G")
    case True
    then show ?thesis using g(2) cg by (simp add: store_bodies_Suc virial_store_read[OF vp])
  next
    case False
    then have lt: "g < G" using Suc.prems by simp
    show ?thesis
    proof (cases "G < n_mol sy")
      case True
      then have "central sy G < vp" "central sy g \<noteq> central sy G" using c dis False by auto
      then show ?thesis using Suc.IH[OF lt] True
        by (simp add: store_bodies_Suc virial_store_other[OF vp cg])
    next
      case False
      then show ?thesis using Suc.IH[OF lt] by (simp add: store_bodies_Suc)
    qed
  qed
qed

lemma store_bodies_virial_net:
  "d_net_force (store_bodies (virial_store vp) tot sy G dv) = d_net_force dv"
  "d_net_virial (store_bodies (virial_store vp) tot sy G dv) = d_net_virial dv"
  by (induction G) (simp_all add: store_bodies_0 store_bodies_Suc virial_store_def)

subsection \<open>The outputs and their previous contents\<close>

lemma folded_inactive:
  assumes "\<forall>g<n_mol sy. \<not> central sy g < sN sy"
  shows "folded sy = {}"
  using assms by (auto simp: folded_def active_def)

lemma store_bodies_force_indep:
  assumes "d_force dv1 i = d_force dv2 i" "d_torque dv1 i = d_torque dv2 i"
  shows "d_force (store_bodies force_store tot sy G dv1) i = d_force (store_bodies force_store tot sy G dv2) i"
    and "d_torque (store_bodies force_store tot sy G dv1) i = d_torque (store_bodies force_store tot sy G dv2) i"
  using assms
  by (induction G) (simp_all add: store_bodies_0 store_bodies_Suc force_store_def)

lemma store_bodies_virial_indep:
  assumes "d_virial dv1 j = d_virial dv2 j"
  shows "d_virial (store_bodies (virial_store vp) tot sy G dv1) j
       = d_virial (store_bodies (virial_store vp) tot sy G dv2) j"
  using assms
  by (induction G) (simp_all add: store_bodies_0 store_bodies_Suc virial_store_def)

lemma store_bodies_virial_zero:
  assumes "d_virial dv j = 0"
    and "\<forall>g<n_mol sy. tot g = 0 \<or> (\<forall>c<6. j \<noteq> vslot vp c (central sy g))"
  shows "d_virial (store_bodies (virial_store vp) tot sy G dv) j = 0"
proof (induction G)
  case 0
  then show ?case using assms(1) by (simp add: store_bodies_0)
next
  case (Suc G)
  show ?case
  proof (cases "G < n_mol sy")
    case False
    then show ?thesis using Suc by (simp add: store_bodies_Suc)
  next
    case True
    then consider "tot G = 0" | "\<forall>c<6. j \<noteq> vslot vp c (central sy G)" using assms(2) by blast
    then show ?thesis
    proof cases
      case 1
      then show ?thesis using Suc True
        by (simp add: store_bodies_Suc virial_store_def zero_sym6_def)
    next
      case 2
      then have "j \<noteq> vslot vp 0 (central sy G)" "j \<noteq> vslot vp 1 (central sy G)"
        "j \<noteq> vslot vp 2 (central sy G)" "j \<noteq> vslot vp 3 (central sy G)"
        "j \<noteq> vslot vp 4 (central sy G)" "j \<noteq> vslot vp 5 (central sy G)"
        by simp_all
      then show ?thesis using Suc True
        by (simp add: store_bodies_Suc virial_store_def)
    qed
  qed
qed

subsection \<open>The StateSpreader\<close>

text \<open>
  A thread writes the position record and the image of its own particle only, and only when
  the particle is processed; the central particle of a processed particle is never written,
  so every thread of a launch reads the central particles as they were before the launch.
\<close>

lemma update_thread_frame:
  assumes "gpu_update_composite_kernel sy bw r idx s = Some s'"
  shows "d_orientation s' = d_orientation s"
    and "j \<noteq> idx \<Longrightarrow> d_postype s' j = d_postype s j"
    and "j \<noteq> idx \<Longrightarrow> d_image s' j = d_image s j"
    and "ptype (d_postype s' j) = ptype (d_postype s j)"
  using assms
  by (auto simp: gpu_update_composite_kernel_def Let_def rd_def wr_def bind_eq_Some_conv
      split: if_splits)

lemma update_thread_skip:
  assumes "gpu_update_composite_kernel sy bw r i s = Some s'"
    and "d_body sy i = NO_BODY \<or> d_rtag sy (d_body sy i) = i"
  shows "s' = s"
  using assms
  by (auto simp: gpu_update_composite_kernel_def Let_def rd_def wr_def bind_eq_Some_conv
      split: if_splits)

lemma run_threads_Cons_Some:
  assumes "run_threads f (j # ids) s = Some s'"
  obtains s1 where "f j s = Some s1" "run_threads f ids s1 = Some s'"
  using assms by (auto split: option.splits)

lemma run_threads_orientation:
  assumes "run_threads (gpu_update_composite_kernel sy bw r) ids s = Some s'"
  shows "d_orientation s' = d_orientation s"
  using assms
proof (induction ids arbitrary: s)
  case Nil
  then show ?case by simp
next
  case (Cons j ids)
  from Cons.prems obtain s1 where s1: "gpu_update_composite_kernel sy bw r j s = Some s1"
    and rest: "run_threads (gpu_update_composite_kernel sy bw r) ids s1 = Some s'"
    by (rule run_threads_Cons_Some)
  show ?case using Cons.IH[OF rest] update_thread_frame(1)[OF s1] by simp
qed

lemma run_threads_skip:
  assumes "run_threads (gpu_update_composite_kernel sy bw r) ids s = Some s'"
    and "d_body sy i = NO_BODY \<or> d_rtag sy (d_body sy i) = i"
  shows "d_postype s' i = d_postype s i \<and> d_image s' i = d_image s i"
  using assms(1)
proof (induction ids arbitrary: s)
  case Nil
  then show ?case by simp
next
  case (Cons j ids)
  from Cons.prems obtain s1 where s1: "gpu_update_composite_kernel sy bw r j s = Some s1"
    and rest: "run_threads (gpu_update_composite_kernel sy bw r) ids s1 = Some s'"
    by (rule run_threads_Cons_Some)
  have "d_postype s1 i = d_postype s i \<and> d_image s1 i = d_image s i"
  proof (cases "j = i")
    case True
    then show ?thesis using update_thread_skip[OF s1[unfolded True] assms(2)] by simp
  next
    case False
    then show ?thesis using update_thread_frame(2,3)[OF s1, of i] by auto
  qed
  then show ?case using Cons.IH[OF rest] by simp
qed

lemma update_pass_threads:
  assumes "gpu_update_composite sy bw r max_bs bs s = Some s'"
  obtains n_blocks run_block_size where
    "run_threads (gpu_update_composite_kernel sy bw r) (thread_ids n_blocks run_block_size) s = Some s'"
    "0 < run_block_size"
    "n_blocks = u32 (u32 (sN sy + n_ghost sy) div run_block_size + 1)"
  using assms
  by (auto simp: gpu_update_composite_def Let_def split: if_splits)

lemma spreader_never_writes_orientation:
  assumes "gpu_update_composite sy box_wrap remote max_bs block_size s = Some s'"
  shows "d_orientation s' = d_orientation s"
proof -
  from assms(1) obtain n_blocks run_block_size where
    run: "run_threads (gpu_update_composite_kernel sy box_wrap remote)
            (thread_ids n_blocks run_block_size) s = Some s'"
    by (rule update_pass_threads)
  show ?thesis by (rule run_threads_orientation[OF run])
qed

lemma update_thread_processed:
  assumes "processed sy remote i" "d_body sy i < rtag_size sy"
    and "d_rtag sy (d_body sy i) < u32 (sN sy + n_ghost sy)"
    and "template_index sy s i < template_size sy"
  shows "gpu_update_composite_kernel sy bw remote i s =
     Some (s\<lparr>d_postype := (d_postype s)
                 (i := Postype (vx (fst (spread_target sy bw s i))) (vy (fst (spread_target sy bw s i)))
                          (vz (fst (spread_target sy bw s i))) (ptype (d_postype s i))),
             d_image := (d_image s)(i := snd (spread_target sy bw s i))\<rparr>)"
  using assms
  by (auto simp: gpu_update_composite_kernel_def processed_def Let_def rd_def wr_def
        template_index_def spread_target_def)

lemma update_thread_not_processed:
  assumes "\<not> processed sy remote i"
    and "i < u32 (sN sy + n_ghost sy) \<Longrightarrow> d_body sy i \<noteq> NO_BODY \<Longrightarrow> d_body sy i < rtag_size sy"
  shows "gpu_update_composite_kernel sy bw remote i s = Some s"
  using assms
  by (auto simp: gpu_update_composite_kernel_def processed_def Let_def rd_def wr_def)

lemma run_threads_append:
  "run_threads f (xs @ ys) s =
     (case run_threads f xs s of None \<Rightarrow> None | Some s1 \<Rightarrow> run_threads f ys s1)"
  by (induction xs arbitrary: s) (auto split: option.splits)

lemma run_threads_ptype:
  assumes "run_threads (gpu_update_composite_kernel sy bw r) ids s = Some s'"
  shows "ptype (d_postype s' j) = ptype (d_postype s j)"
  using assms
proof (induction ids arbitrary: s)
  case Nil
  then show ?case by simp
next
  case (Cons k ids)
  from Cons.prems obtain s1 where s1: "gpu_update_composite_kernel sy bw r k s = Some s1"
    and rest: "run_threads (gpu_update_composite_kernel sy bw r) ids s1 = Some s'"
    by (rule run_threads_Cons_Some)
  show ?case using Cons.IH[OF rest] update_thread_frame(4)[OF s1] by simp
qed

lemma run_threads_other:
  assumes "run_threads (gpu_update_composite_kernel sy bw r) ids s = Some s'" "i \<notin> set ids"
  shows "d_postype s' i = d_postype s i \<and> d_image s' i = d_image s i"
  using assms
proof (induction ids arbitrary: s)
  case Nil
  then show ?case by simp
next
  case (Cons k ids)
  from Cons.prems(1) obtain s1 where s1: "gpu_update_composite_kernel sy bw r k s = Some s1"
    and rest: "run_threads (gpu_update_composite_kernel sy bw r) ids s1 = Some s'"
    by (rule run_threads_Cons_Some)
  have "i \<noteq> k" "i \<notin> set ids" using Cons.prems(2) by auto
  then show ?case using Cons.IH[OF rest] update_thread_frame(2,3)[OF s1, of i] by simp
qed

lemma template_index_cong:
  assumes "\<And>j. ptype (d_postype s1 j) = ptype (d_postype s j)"
  shows "template_index sy s1 i = template_index sy s i"
  by (simp add: template_index_def assms)

lemma spread_ok_cong:
  assumes "\<And>j. ptype (d_postype s1 j) = ptype (d_postype s j)"
  shows "spread_ok sy remote s1 = spread_ok sy remote s"
  by (simp add: spread_ok_def template_index_cong[OF assms])

lemma update_thread_total:
  assumes "spread_ok sy remote s"
  shows "\<exists>s1. gpu_update_composite_kernel sy bw remote i s = Some s1"
proof -
  have n: "u32 (sN sy + n_ghost sy) = sN sy + n_ghost sy"
    using assms by (intro u32_id) (simp add: spread_ok_def)
  show ?thesis
  proof (cases "processed sy remote i")
    case True
    then have i: "i < sN sy + n_ghost sy" "d_body sy i \<noteq> NO_BODY" by (simp_all add: processed_def n)
    then have "d_body sy i < rtag_size sy" "d_rtag sy (d_body sy i) < u32 (sN sy + n_ghost sy)"
        "template_index sy s i < template_size sy"
      using assms True unfolding spread_ok_def n by blast+
    then show ?thesis using update_thread_processed[OF True] by blast
  next
    case False
    have "d_body sy i < rtag_size sy" if "i < u32 (sN sy + n_ghost sy)" "d_body sy i \<noteq> NO_BODY"
      using assms that unfolding spread_ok_def n by blast
    then show ?thesis using update_thread_not_processed[OF False] by blast
  qed
qed

lemma run_threads_total:
  assumes "spread_ok sy remote s"
  shows "\<exists>s'. run_threads (gpu_update_composite_kernel sy bw remote) ids s = Some s'"
  using assms
proof (induction ids arbitrary: s)
  case Nil
  then show ?case by simp
next
  case (Cons k ids)
  obtain s1 where s1: "gpu_update_composite_kernel sy bw remote k s = Some s1"
    using update_thread_total[OF Cons.prems] by blast
  have "spread_ok sy remote s1"
    using Cons.prems spread_ok_cong[of s1 s sy remote] update_thread_frame(4)[OF s1] by simp
  then show ?case using Cons.IH s1 by simp
qed

lemma thread_ids_mem:
  assumes "i < n" "n < 4294967295" "0 < rbs"
  shows "i \<in> set (thread_ids (u32 (u32 n div rbs + 1)) rbs)"
proof -
  have n: "u32 n = n" using assms(2) by (intro u32_id) simp
  have "n div rbs \<le> n" by simp
  then have nb: "u32 (n div rbs + 1) = n div rbs + 1" using assms(2) by (intro u32_id) linarith
  have b: "i div rbs < n div rbs + 1" using assms(1) by (simp add: div_le_mono less_Suc_eq_le)
  have t: "i mod rbs < rbs" using assms(3) by simp
  have "u32 (i div rbs * rbs + i mod rbs) = i" using assms(1,2) by (simp add: u32_id)
  then have "i \<in> (\<lambda>t. u32 (i div rbs * rbs + t)) ` {0..<rbs}" using t
    by (metis atLeastLessThan_iff image_eqI zero_le)
  moreover have "i div rbs \<in> {0..<n div rbs + 1}" using b by simp
  ultimately have "i \<in> (\<Union>b\<in>{0..<n div rbs + 1}. (\<lambda>t. u32 (b * rbs + t)) ` {0..<rbs})"
    by blast
  then show ?thesis
    unfolding thread_ids_def n nb by (simp only: set_concat set_map set_upt image_image)
qed

lemma rotate_identity: "rotate (Quat 1 (Vec3 0 0 0)) v = v"
  by (cases v) (simp add: rotate_def smul_def dot_def cross_def plus_vec3_def)

lemma run_threads_idle:
  assumes "run_threads (gpu_update_composite_kernel sy bw r) ids s = Some s'"
    and "\<And>s1. gpu_update_composite_kernel sy bw r i s1 = Some s1"
  shows "d_postype s' i = d_postype s i \<and> d_image s' i = d_image s i"
  using assms(1)
proof (induction ids arbitrary: s)
  case Nil
  then show ?case by simp
next
  case (Cons j ids)
  from Cons.prems obtain s1 where s1: "gpu_update_composite_kernel sy bw r j s = Some s1"
    and rest: "run_threads (gpu_update_composite_kernel sy bw r) ids s1 = Some s'"
    by (rule run_threads_Cons_Some)
  have "d_postype s1 i = d_postype s i \<and> d_image s1 i = d_image s i"
  proof (cases "j = i")
    case True
    then show ?thesis using s1 assms(2)[of s] by simp
  next
    case False
    then show ?thesis using update_thread_frame(2,3)[OF s1, of i] by auto
  qed
  then show ?case using Cons.IH[OF rest] by simp
qed

lemma run_threads_fault:
  assumes "i \<in> set ids" "\<And>s1. f i s1 = None"
  shows "run_threads f ids s = None"
  using assms(1)
  by (induction ids arbitrary: s) (auto simp: assms(2) split: option.splits)

lemma spread_pass_result:
  assumes "spread_ok sy remote s" "0 < max_bs" "0 < block_size" "processed sy remote i"
  shows "\<exists>s'. gpu_update_composite sy box_wrap remote max_bs block_size s = Some s' \<and>
          vec3_of_postype (d_postype s' i) = fst (spread_target sy box_wrap s i) \<and>
          ptype (d_postype s' i) = ptype (d_postype s i) \<and>
          d_image s' i = snd (spread_target sy box_wrap s i)"
proof -
  let ?K = "gpu_update_composite_kernel sy box_wrap remote"
  let ?c = "d_rtag sy (d_body sy i)"
  define rbs where "rbs = (if max_bs \<le> block_size then max_bs else block_size)"
  define ids where "ids = thread_ids (u32 (u32 (sN sy + n_ghost sy) div rbs + 1)) rbs"
  have rbs: "0 < rbs" using assms(2,3) by (simp add: rbs_def)
  have nlt: "sN sy + n_ghost sy < 4294967295" using assms(1) by (simp add: spread_ok_def)
  then have n: "u32 (sN sy + n_ghost sy) = sN sy + n_ghost sy" by (intro u32_id) simp
  have i: "i < sN sy + n_ghost sy" "d_body sy i \<noteq> NO_BODY"
    using assms(4) by (simp_all add: processed_def n)
  have wf: "d_body sy i < rtag_size sy" "?c < sN sy + n_ghost sy"
    "template_index sy s i < template_size sy"
    "d_body sy ?c = NO_BODY \<or> d_rtag sy (d_body sy ?c) = ?c"
    using assms(1,4) i unfolding spread_ok_def by blast+
  obtain s' where run: "run_threads ?K ids s = Some s'"
    using run_threads_total[OF assms(1)] by blast
  have pass: "gpu_update_composite sy box_wrap remote max_bs block_size s = Some s'"
    using run rbs by (simp add: gpu_update_composite_def Let_def rbs_def[symmetric] ids_def)
  have "i \<in> set ids" unfolding ids_def by (rule thread_ids_mem[OF i(1) nlt rbs])
  then obtain pre post where sp: "ids = pre @ i # post" "i \<notin> set post"
    using split_list_last by fastforce
  obtain s1 where s1: "run_threads ?K pre s = Some s1" and r1: "run_threads ?K (i # post) s1 = Some s'"
    using run unfolding sp(1) run_threads_append by (auto split: option.splits)
  from r1 obtain s2 where s2: "?K i s1 = Some s2" and r2: "run_threads ?K post s2 = Some s'"
    by (rule run_threads_Cons_Some)
  have pt: "ptype (d_postype s1 j) = ptype (d_postype s j)" for j
    by (rule run_threads_ptype[OF s1])
  have ti: "template_index sy s1 i = template_index sy s i"
    by (rule template_index_cong) (rule pt)
  have cs: "d_postype s1 ?c = d_postype s ?c \<and> d_image s1 ?c = d_image s ?c"
    by (rule run_threads_skip[OF s1 wf(4)])
  have os: "d_orientation s1 = d_orientation s" by (rule run_threads_orientation[OF s1])
  have tg: "spread_target sy box_wrap s1 i = spread_target sy box_wrap s i"
    by (simp add: spread_target_def ti cs os)
  have "?K i s1 =
     Some (s1\<lparr>d_postype := (d_postype s1)
                 (i := Postype (vx (fst (spread_target sy box_wrap s1 i)))
                          (vy (fst (spread_target sy box_wrap s1 i)))
                          (vz (fst (spread_target sy box_wrap s1 i))) (ptype (d_postype s1 i))),
             d_image := (d_image s1)(i := snd (spread_target sy box_wrap s1 i))\<rparr>)"
    by (rule update_thread_processed[OF assms(4) wf(1)]) (simp_all add: n wf ti)
  then have v2: "d_postype s2 i = Postype (vx (fst (spread_target sy box_wrap s i)))
                          (vy (fst (spread_target sy box_wrap s i)))
                          (vz (fst (spread_target sy box_wrap s i))) (ptype (d_postype s i))"
      "d_image s2 i = snd (spread_target sy box_wrap s i)"
    using s2 by (auto simp: tg pt)
  have fin: "d_postype s' i = d_postype s2 i \<and> d_image s' i = d_image s2 i"
    by (rule run_threads_other[OF r2 sp(2)])
  show ?thesis
    using pass fin v2 by (simp add: vec3_of_postype_def)
qed

lemma update_pass_total:
  assumes "spread_ok sy remote s" "0 < max_bs" "0 < block_size"
  shows "\<exists>s'. gpu_update_composite sy box_wrap remote max_bs block_size s = Some s'"
  using run_threads_total[OF assms(1)] assms(2,3)
  by (simp add: gpu_update_composite_def Let_def)

subsection \<open>Facts of the example systems\<close>

lemma ex_sizing_ok: "sizing_ok ex_hardware 64 1"
  by (simp add: sizing_ok_def ex_hardware_def)

lemma ex_molecules_ok: "molecules_ok ex_system 64 1"
  by (simp add: molecules_ok_def ex_system_def all_members_def mol_member_def upt_rec)

lemma ex_central: "central ex_system 0 = 0" "n_mol ex_system = 1" "sN ex_system = 4"
  "d_molecule_len ex_system 0 = 3" "mol_member ex_system 0 k = k"
  by (simp_all add: central_def mol_member_def ex_system_def)

lemma ex_pair_molecules_ok: "molecules_ok ex_pair 64 1"
  by (simp add: molecules_ok_def ex_pair_def ex_system_def all_members_def mol_member_def upt_rec)

lemma ex_pair_facts: "central ex_pair 0 = 0" "n_mol ex_pair = 1" "sN ex_pair = 4"
  "d_molecule_len ex_pair 0 = 2" "mol_member ex_pair 0 k = k"
  "d_tag ex_pair i = i" "body_indexer ex_pair bt l = l + bt"
  "d_body_pos ex_pair i = (if i = 0 then Vec3 1 0 0 else Vec3 0 1 0)"
  by (simp_all add: central_def mol_member_def ex_pair_def ex_system_def)

lemma ex_pair_relative_position:
  "relative_position ex_pair (ex_device\<lparr>d_net_torque := (\<lambda>i. Scalar4 0 0 0 0)\<rparr>) 0 1 = Vec3 1 0 0"
  by (simp add: relative_position_def ex_pair_facts local_index_def
        ex_device_def usub_def u32_def rotate_def quat_of_scalar4_def smul_def dot_def cross_def
        plus_vec3_def)

lemma ex_pair_virial_ok: "virial_ok ex_pair 4 4"
  by (simp add: virial_ok_def ex_pair_facts less_Suc_eq numeral_2_eq_2)

lemma ex_pair_relative_position': "relative_position ex_pair ex_device 0 1 = Vec3 1 0 0"
  by (simp add: relative_position_def ex_pair_facts local_index_def
        ex_device_def usub_def u32_def rotate_def quat_of_scalar4_def smul_def dot_def cross_def
        plus_vec3_def)

lemma ex_ghost_molecules_ok: "molecules_ok ex_ghost 64 1"
  by (simp add: molecules_ok_def ex_ghost_def ex_system_def all_members_def mol_member_def upt_rec)

lemma ex_ghost_facts: "central ex_ghost 0 = 3" "n_mol ex_ghost = 1" "sN ex_ghost = 3"
  by (simp_all add: central_def mol_member_def ex_ghost_def ex_system_def)

lemma ex_system_fields:
  "sN ex_system = 4" "n_ghost ex_system = 0" "rtag_size ex_system = 4" "template_size ex_system = 2"
  "d_body ex_system i = (if i < 3 then 0 else NO_BODY)" "d_rtag ex_system t = t"
  "d_tag ex_system i = i" "body_indexer ex_system bt l = l + bt"
  "d_body_pos ex_system i = (if i = 0 then Vec3 1 0 0 else Vec3 0 1 0)"
  "d_body_orientation ex_system i = Scalar4 1 0 0 0"
  by (simp_all add: ex_system_def)

lemma ex_placed_fields:
  "d_postype ex_placed i = Postype (if i = 0 then 9 / 2 else real i) 0 0 (if i = 0 then 0 else 1)"
  "d_orientation ex_placed i = Scalar4 1 0 0 0" "d_image ex_placed i = Int3 0 0 0"
  by (simp_all add: ex_placed_def ex_device_def)

lemma ex_turned_fields:
  "d_postype ex_turned i = Postype (real i) 0 0 (if i = 0 then 0 else 1)"
  "d_orientation ex_turned i = (if i = 0 then Scalar4 0 1 0 0 else Scalar4 1 0 0 0)"
  by (simp_all add: ex_turned_def ex_device_def)

lemma ex_processed: "processed ex_system remote i \<longleftrightarrow> i = 1 \<or> i = 2"
  by (auto simp: processed_def ex_system_fields u32_def NO_BODY_def NOT_LOCAL_def)

lemma ex_template_index:
  "ptype (d_postype s 0) = 0 \<Longrightarrow> template_index ex_system s 1 = 0"
  "ptype (d_postype s 0) = 0 \<Longrightarrow> template_index ex_system s 2 = 1"
  by (simp_all add: template_index_def ex_system_fields usub_def u32_def)

lemma ex_spread_ok:
  assumes "ptype (d_postype s 0) = 0"
  shows "spread_ok ex_system remote s"
  unfolding spread_ok_def ex_processed
  using ex_template_index[OF assms]
  by (auto simp: ex_system_fields NO_BODY_def)

lemma ex_virial_ok: "virial_ok ex_system 4 4"
  by (simp add: virial_ok_def ex_central less_Suc_eq numeral_3_eq_3)

section \<open>The claims\<close>

text \<open>
  Claim C1. For every body whose central particle lies in the local range, after a pass of
  \<^verbatim>\<open>gpu_rigid_force\<close> the force output slot of the central particle holds exactly the sum
  of the net forces (the energy in the fourth component) of the members of the body other
  than the central particle; if all of these are zero, the slot holds zero.
\<close>

theorem force_reduction_sums_constituents:
  assumes "sizing_ok hw block_size nbpb" "molecules_ok sy block_size nbpb"
    and "g < n_mol sy" "central sy g < sN sy"
  shows "\<exists>dv'. gpu_rigid_force sy hw nbpb block_size zero_force sh0 scratch0 dv = Some dv' \<and>
          d_force dv' (central sy g)
            = (\<Sum>k<d_molecule_len sy g. if mol_member sy g k \<noteq> central sy g
                   then d_net_force dv (mol_member sy g k) else 0) \<and>
          ((\<forall>k<d_molecule_len sy g. mol_member sy g k \<noteq> central sy g
                \<longrightarrow> d_net_force dv (mol_member sy g k) = 0)
             \<longrightarrow> d_force dv' (central sy g) = 0)"
proof -
  let ?dv0 = "dv\<lparr>d_force := memset0 (d_force dv) (sN sy), d_torque := memset0 (d_torque dv) (sN sy)\<rparr>"
  let ?tot = "body_total (force_contrib sy) sy dv"
  let ?dv' = "force_zero zero_force (folded sy) (store_bodies force_store ?tot sy (n_mol sy) ?dv0)"
  have run: "gpu_rigid_force sy hw nbpb block_size zero_force sh0 scratch0 dv = Some ?dv'"
    by (rule force_pass_eq[OF assms(1,2)])
  have dis: "\<forall>g'<n_mol sy. g' \<noteq> g \<longrightarrow> central sy g' \<noteq> central sy g"
    using centrals_distinct[OF assms(2,3)] by blast
  have "d_force ?dv' (central sy g) = d_force (store_bodies force_store ?tot sy (n_mol sy) ?dv0) (central sy g)"
    by (simp add: force_zero_def)
  also have "\<dots> = sum_force (?tot g)"
    by (rule store_bodies_force_central(1)[OF assms(3,3) dis])
  also have "\<dots> = (\<Sum>k<d_molecule_len sy g. if mol_member sy g k \<noteq> central sy g
                   then d_net_force dv (mol_member sy g k) else 0)"
    by (rule body_total_force[OF assms(4)])
  finally have val: "d_force ?dv' (central sy g) = (\<Sum>k<d_molecule_len sy g. if mol_member sy g k \<noteq> central sy g
                   then d_net_force dv (mol_member sy g k) else 0)" .
  have "(\<Sum>k<d_molecule_len sy g. if mol_member sy g k \<noteq> central sy g
                   then d_net_force dv (mol_member sy g k) else 0) = 0"
    if "\<forall>k<d_molecule_len sy g. mol_member sy g k \<noteq> central sy g
                \<longrightarrow> d_net_force dv (mol_member sy g k) = 0"
    by (rule sum.neutral) (use that in auto)
  then show ?thesis using run val by simp
qed

theorem force_reduction_sums_constituents_witness:
  "sizing_ok ex_hardware 64 1 \<and> molecules_ok ex_system 64 1 \<and> 0 < n_mol ex_system \<and>
   central ex_system 0 < sN ex_system \<and>
   (\<exists>dv'. gpu_rigid_force ex_system ex_hardware 1 64 True ex_shared (\<lambda>b t. 0) ex_device = Some dv' \<and>
          d_force dv' (central ex_system 0) = Scalar4 11 22 33 44) \<and>
   d_net_force (ex_device\<lparr>d_net_force := (\<lambda>i. 0)\<rparr>) = (\<lambda>i. 0) \<and>
   (\<exists>dv'. gpu_rigid_force ex_system ex_hardware 1 64 True ex_shared (\<lambda>b t. 0)
            (ex_device\<lparr>d_net_force := (\<lambda>i. 0)\<rparr>) = Some dv' \<and>
          d_force dv' (central ex_system 0) = 0)"
proof -
  have g: "0 < n_mol ex_system" "central ex_system 0 < sN ex_system"
    by (simp_all add: ex_central)
  have z: "\<forall>k<d_molecule_len ex_system 0. mol_member ex_system 0 k \<noteq> central ex_system 0
       \<longrightarrow> d_net_force (ex_device\<lparr>d_net_force := (\<lambda>i. 0)\<rparr>) (mol_member ex_system 0 k) = 0"
    by simp
  have s: "(\<Sum>k<d_molecule_len ex_system 0. if mol_member ex_system 0 k \<noteq> central ex_system 0
                   then d_net_force ex_device (mol_member ex_system 0 k) else 0) = Scalar4 11 22 33 44"
    by (simp add: ex_central ex_device_def eval_nat_numeral plus_scalar4_def zero_scalar4_def)
  show ?thesis
    using force_reduction_sums_constituents[OF ex_sizing_ok ex_molecules_ok g,
            of True ex_shared "\<lambda>b t. 0" ex_device]
          force_reduction_sums_constituents[OF ex_sizing_ok ex_molecules_ok g,
            of True ex_shared "\<lambda>b t. 0" "ex_device\<lparr>d_net_force := (\<lambda>i. 0)\<rparr>"]
          z
    by (simp only: ex_sizing_ok ex_molecules_ok g s simp_thms) auto
qed

text \<open>
  Claim C2. For every body whose central particle lies in the local range, after a pass of
  \<^verbatim>\<open>gpu_rigid_force\<close> the torque output slot of the central particle holds, in its first
  three components, the sum over the members other than the central particle of the net
  torque of the member plus the cross product of its relative position and its net force;
  the relative position is the template offset of the member rotated by the orientation
  stored for the central particle (\<open>relative_position\<close> reads no other orientation), and
  the fourth component is zero. For a body of the central particle and one constituent
  whose net torque is zero, the torque is \<open>r \<times> f\<close>.
\<close>

theorem torque_reduction_sums_constituents:
  assumes "sizing_ok hw block_size nbpb" "molecules_ok sy block_size nbpb"
    and "g < n_mol sy" "central sy g < sN sy"
  shows "\<exists>dv'. gpu_rigid_force sy hw nbpb block_size zero_force sh0 scratch0 dv = Some dv' \<and>
          vec3_of_scalar4 (d_torque dv' (central sy g))
            = (\<Sum>k<d_molecule_len sy g. if mol_member sy g k \<noteq> central sy g
                   then vec3_of_scalar4 (d_net_torque dv (mol_member sy g k))
                        + cross (relative_position sy dv g k)
                            (vec3_of_scalar4 (d_net_force dv (mol_member sy g k)))
                   else 0) \<and>
          s4w (d_torque dv' (central sy g)) = 0 \<and>
          (d_molecule_len sy g = 2 \<and> vec3_of_scalar4 (d_net_torque dv (mol_member sy g 1)) = 0
             \<longrightarrow> vec3_of_scalar4 (d_torque dv' (central sy g))
                 = cross (relative_position sy dv g 1)
                     (vec3_of_scalar4 (d_net_force dv (mol_member sy g 1))))"
proof -
  let ?dv0 = "dv\<lparr>d_force := memset0 (d_force dv) (sN sy), d_torque := memset0 (d_torque dv) (sN sy)\<rparr>"
  let ?tot = "body_total (force_contrib sy) sy dv"
  let ?dv' = "force_zero zero_force (folded sy) (store_bodies force_store ?tot sy (n_mol sy) ?dv0)"
  let ?T = "\<Sum>k<d_molecule_len sy g. if mol_member sy g k \<noteq> central sy g
                   then vec3_of_scalar4 (d_net_torque dv (mol_member sy g k))
                        + cross (relative_position sy dv g k)
                            (vec3_of_scalar4 (d_net_force dv (mol_member sy g k)))
                   else 0"
  have run: "gpu_rigid_force sy hw nbpb block_size zero_force sh0 scratch0 dv = Some ?dv'"
    by (rule force_pass_eq[OF assms(1,2)])
  have dis: "\<forall>g'<n_mol sy. g' \<noteq> g \<longrightarrow> central sy g' \<noteq> central sy g"
    using centrals_distinct[OF assms(2,3)] by blast
  have "d_torque ?dv' (central sy g) = d_torque (store_bodies force_store ?tot sy (n_mol sy) ?dv0) (central sy g)"
    by (simp add: force_zero_def)
  also have "\<dots> = Scalar4 (vx (sum_torque (?tot g))) (vy (sum_torque (?tot g))) (vz (sum_torque (?tot g))) 0"
    by (rule store_bodies_force_central(2)[OF assms(3,3) dis])
  finally have st: "d_torque ?dv' (central sy g)
      = Scalar4 (vx (sum_torque (?tot g))) (vy (sum_torque (?tot g))) (vz (sum_torque (?tot g))) 0" .
  have val: "vec3_of_scalar4 (d_torque ?dv' (central sy g)) = ?T"
    unfolding st by (simp add: vec3_of_scalar4_def body_total_torque[OF assms(4)])
  have w: "s4w (d_torque ?dv' (central sy g)) = 0"
    unfolding st by simp
  have two: "?T = cross (relative_position sy dv g 1)
                     (vec3_of_scalar4 (d_net_force dv (mol_member sy g 1)))"
    if "d_molecule_len sy g = 2" "vec3_of_scalar4 (d_net_torque dv (mol_member sy g 1)) = 0"
  proof -
    have "mol_member sy g 1 \<noteq> central sy g"
      by (rule constituent_not_central[OF assms(2,3)]) (simp_all add: that)
    then show ?thesis
      using that by (simp add: sum_two_members central_def[symmetric])
  qed
  show ?thesis using run val w two by simp
qed

theorem torque_reduction_sums_constituents_witness:
  "sizing_ok ex_hardware 64 1 \<and> molecules_ok ex_pair 64 1 \<and> 0 < n_mol ex_pair \<and>
   central ex_pair 0 < sN ex_pair \<and> d_molecule_len ex_pair 0 = 2 \<and>
   vec3_of_scalar4 (d_net_torque (ex_device\<lparr>d_net_torque := (\<lambda>i. Scalar4 0 0 0 0)\<rparr>)
      (mol_member ex_pair 0 1)) = 0 \<and>
   (\<exists>dv'. gpu_rigid_force ex_pair ex_hardware 1 64 True ex_shared (\<lambda>b t. 0)
             (ex_device\<lparr>d_net_torque := (\<lambda>i. Scalar4 0 0 0 0)\<rparr>) = Some dv' \<and>
          vec3_of_scalar4 (d_torque dv' (central ex_pair 0)) = Vec3 0 (- 3) 2 \<and>
          s4w (d_torque dv' (central ex_pair 0)) = 0)"
proof -
  have g: "0 < n_mol ex_pair" "central ex_pair 0 < sN ex_pair"
    by (simp_all add: ex_pair_facts)
  have h: "d_molecule_len ex_pair 0 = 2"
    "vec3_of_scalar4 (d_net_torque (ex_device\<lparr>d_net_torque := (\<lambda>i. Scalar4 0 0 0 0)\<rparr>)
      (mol_member ex_pair 0 1)) = 0"
    by (simp_all add: ex_pair_facts vec3_of_scalar4_def zero_vec3_def)
  have c: "cross (relative_position ex_pair (ex_device\<lparr>d_net_torque := (\<lambda>i. Scalar4 0 0 0 0)\<rparr>) 0 1)
             (vec3_of_scalar4 (d_net_force (ex_device\<lparr>d_net_torque := (\<lambda>i. Scalar4 0 0 0 0)\<rparr>)
                (mol_member ex_pair 0 1))) = Vec3 0 (- 3) 2"
    unfolding ex_pair_relative_position
    by (simp add: ex_pair_facts ex_device_def cross_def vec3_of_scalar4_def)
  show ?thesis
    using torque_reduction_sums_constituents[OF ex_sizing_ok ex_pair_molecules_ok g,
            of True ex_shared "\<lambda>b t. 0" "ex_device\<lparr>d_net_torque := (\<lambda>i. Scalar4 0 0 0 0)\<rparr>"]
          h
    by (simp only: ex_sizing_ok ex_pair_molecules_ok g c simp_thms) auto
qed

text \<open>
  Claim C3. For every body of the central particle and one constituent that a pass of
  \<^verbatim>\<open>gpu_rigid_virial\<close> processes, the six virial components stored at the central
  particle are the six net virial components of the constituent minus the components
  \<open>f\<^sub>x r\<^sub>x\<close>, \<open>f\<^sub>x r\<^sub>y\<close>, \<open>f\<^sub>x r\<^sub>z\<close>, \<open>f\<^sub>y r\<^sub>y\<close>, \<open>f\<^sub>y r\<^sub>z\<close>, \<open>f\<^sub>z r\<^sub>z\<close> of the product of its net
  force and its relative position, and after the pass the net virial and the net force of
  the constituent are zero.
\<close>

theorem virial_single_constituent:
  assumes "sizing_ok hw block_size nbpb" "molecules_ok sy block_size nbpb"
    and "virial_ok sy net_virial_pitch virial_pitch"
    and "g < n_mol sy" "central sy g < sN sy" "d_molecule_len sy g = 2"
  shows "\<exists>dv'. gpu_rigid_virial sy hw nbpb net_virial_pitch virial_pitch block_size sh0 scratch0 dv
              = Some dv' \<and>
          virial_at (d_virial dv') virial_pitch (central sy g)
            = Sym6 (vxx (virial_at (d_net_virial dv) net_virial_pitch (mol_member sy g 1))
                      - s4x (d_net_force dv (mol_member sy g 1)) * vx (relative_position sy dv g 1))
                   (vxy (virial_at (d_net_virial dv) net_virial_pitch (mol_member sy g 1))
                      - s4x (d_net_force dv (mol_member sy g 1)) * vy (relative_position sy dv g 1))
                   (vxz (virial_at (d_net_virial dv) net_virial_pitch (mol_member sy g 1))
                      - s4x (d_net_force dv (mol_member sy g 1)) * vz (relative_position sy dv g 1))
                   (vyy (virial_at (d_net_virial dv) net_virial_pitch (mol_member sy g 1))
                      - s4y (d_net_force dv (mol_member sy g 1)) * vy (relative_position sy dv g 1))
                   (vyz (virial_at (d_net_virial dv) net_virial_pitch (mol_member sy g 1))
                      - s4y (d_net_force dv (mol_member sy g 1)) * vz (relative_position sy dv g 1))
                   (vzz (virial_at (d_net_virial dv) net_virial_pitch (mol_member sy g 1))
                      - s4z (d_net_force dv (mol_member sy g 1)) * vz (relative_position sy dv g 1)) \<and>
          virial_at (d_net_virial dv') net_virial_pitch (mol_member sy g 1) = Sym6 0 0 0 0 0 0 \<and>
          d_net_force dv' (mol_member sy g 1) = Scalar4 0 0 0 0"
proof -
  let ?np = net_virial_pitch and ?vp = virial_pitch
  let ?p = "mol_member sy g 1"
  let ?dv0 = "dv\<lparr>d_virial := memset0 (d_virial dv) (?vp * 6)\<rparr>"
  let ?tot = "body_total (virial_contrib sy ?np) sy dv"
  let ?X = "store_bodies (virial_store ?vp) ?tot sy (n_mol sy) ?dv0"
  let ?dv' = "virial_zero ?np (folded sy) ?X"
  have run: "gpu_rigid_virial sy hw nbpb ?np ?vp block_size sh0 scratch0 dv = Some ?dv'"
    by (rule virial_pass_eq[OF assms(1,2,3)])
  have vp: "6 * ?vp \<le> 4294967296" using assms(3) by (simp add: virial_ok_def)
  have cen: "\<forall>g'<n_mol sy. central sy g' < ?vp"
    using assms(2,3) by (auto simp: virial_ok_def molecules_ok_def central_def)
  have dis: "\<forall>g'<n_mol sy. g' \<noteq> g \<longrightarrow> central sy g' \<noteq> central sy g"
    using centrals_distinct[OF assms(2,4)] by blast
  have pc: "?p \<noteq> central sy g"
    by (rule constituent_not_central[OF assms(2,4)]) (simp_all add: assms(6))
  have tot: "?tot g = virial_contrib sy ?np (ptype (d_postype dv (central sy g)))
                 (d_orientation dv (central sy g)) ?p (local_index sy g 1) dv"
    using pc assms(5,6)
    by (simp add: body_total_def sum_two_members member_term_def central_def[symmetric])
  have "virial_at (d_virial ?dv') ?vp (central sy g) = virial_at (d_virial ?X) ?vp (central sy g)"
    by (simp add: virial_zero_def)
  also have "\<dots> = ?tot g"
    by (rule store_bodies_virial_central[OF vp assms(4,4) cen dis])
  finally have val: "virial_at (d_virial ?dv') ?vp (central sy g) = ?tot g" .
  have pf: "?p \<in> folded sy"
    unfolding folded_def constituents_def active_def using assms(4,5,6) pc by force
  then have slots: "vslot ?np c ?p \<in> vslots ?np (folded sy)" if "c < 6" for c
    using that unfolding vslots_def by blast
  have zv: "virial_at (d_net_virial ?dv') ?np ?p = Sym6 0 0 0 0 0 0"
    using slots[of 0] slots[of 1] slots[of 2] slots[of 3] slots[of 4] slots[of 5]
    by (simp add: virial_at_def virial_zero_def)
  have zf: "d_net_force ?dv' ?p = Scalar4 0 0 0 0"
    using pf by (simp add: virial_zero_def zero_scalar4_def)
  show ?thesis
    using run val zv zf
    by (simp add: tot virial_contrib_def virial_at_def relative_position_def Let_def)
qed

theorem virial_single_constituent_witness:
  "sizing_ok ex_hardware 64 1 \<and> molecules_ok ex_pair 64 1 \<and> virial_ok ex_pair 4 4 \<and>
   0 < n_mol ex_pair \<and> central ex_pair 0 < sN ex_pair \<and> d_molecule_len ex_pair 0 = 2 \<and>
   (\<exists>dv'. gpu_rigid_virial ex_pair ex_hardware 1 4 4 64 ex_shared (\<lambda>b t. 0) ex_device = Some dv' \<and>
          virial_at (d_virial dv') 4 (central ex_pair 0) = Sym6 0 5 9 13 17 21 \<and>
          virial_at (d_net_virial dv') 4 (mol_member ex_pair 0 1) = Sym6 0 0 0 0 0 0 \<and>
          d_net_force dv' (mol_member ex_pair 0 1) = Scalar4 0 0 0 0)"
proof -
  have g: "0 < n_mol ex_pair" "central ex_pair 0 < sN ex_pair" "d_molecule_len ex_pair 0 = 2"
    by (simp_all add: ex_pair_facts)
  have v: "virial_at (d_net_virial ex_device) 4 (mol_member ex_pair 0 1) = Sym6 1 5 9 13 17 21"
    by (simp add: virial_at_def ex_pair_facts ex_device_def vslot_def u32_def)
  have f: "d_net_force ex_device (mol_member ex_pair 0 1) = Scalar4 1 2 3 4"
    by (simp add: ex_pair_facts ex_device_def)
  show ?thesis
    using virial_single_constituent[OF ex_sizing_ok ex_pair_molecules_ok ex_pair_virial_ok g,
            of ex_shared "\<lambda>b t. 0" ex_device]
          ex_sizing_ok ex_pair_molecules_ok ex_pair_virial_ok g v f ex_pair_relative_position'
    by simp
qed

text \<open>
  Claim C4. The claim is that after a pass of \<^verbatim>\<open>gpu_update_composite\<close> the stored
  orientation of every processed constituent is the orientation of its central particle
  multiplied by the local orientation of its template entry. The kernel computes this product
  in \<^verbatim>\<open>updated_orientation\<close> and never stores it: on the example system with the central
  particle turned by half a turn about the x axis, the product is \<open>(0, (1, 0, 0))\<close>, and after
  the pass constituent 1 has its new position and still the identity orientation.
\<close>

theorem spreader_leaves_orientation_stale:
  "quat_mul (quat_of_scalar4 (d_orientation ex_turned 0))
     (quat_of_scalar4 (d_body_orientation ex_system 0)) = Quat 0 (Vec3 1 0 0) \<and>
   (\<exists>s'. gpu_update_composite ex_system ex_wrap False 64 64 ex_turned = Some s' \<and>
      quat_of_scalar4 (d_orientation s' 1) = Quat 1 (Vec3 0 0 0) \<and>
      vec3_of_postype (d_postype s' 1) = Vec3 1 0 0)"
proof -
  have ok: "spread_ok ex_system False ex_turned"
    by (rule ex_spread_ok) (simp add: ex_turned_fields)
  have pr: "processed ex_system False 1" by (simp add: ex_processed)
  have ti: "template_index ex_system ex_turned 1 = 0"
    by (rule ex_template_index) (simp add: ex_turned_fields)
  have tg: "spread_target ex_system ex_wrap ex_turned 1 = (Vec3 1 0 0, Int3 0 0 0)"
    unfolding spread_target_def ti
    by (simp add: ex_system_fields ex_turned_fields ex_turned_def ex_device_def vec3_of_postype_def
          plus_vec3_def ex_wrap_def rotate_def quat_of_scalar4_def smul_def dot_def cross_def)
  obtain s' where run: "gpu_update_composite ex_system ex_wrap False 64 64 ex_turned = Some s'"
    and p: "vec3_of_postype (d_postype s' 1) = fst (spread_target ex_system ex_wrap ex_turned 1)"
    using spread_pass_result[OF ok _ _ pr, of 64 64 ex_wrap] by auto
  have "d_orientation s' = d_orientation ex_turned"
    by (rule spreader_never_writes_orientation[OF run])
  then have o: "quat_of_scalar4 (d_orientation s' 1) = Quat 1 (Vec3 0 0 0)"
    by (simp add: ex_turned_fields quat_of_scalar4_def)
  have m: "quat_mul (quat_of_scalar4 (d_orientation ex_turned 0))
     (quat_of_scalar4 (d_body_orientation ex_system 0)) = Quat 0 (Vec3 1 0 0)"
    by (simp add: ex_turned_fields ex_system_fields quat_mul_def quat_of_scalar4_def smul_def
          dot_def cross_def plus_vec3_def)
  show ?thesis using run o m p tg by auto
qed

text \<open>
  Claim C5. A particle with a body tag whose central particle the reverse lookup does not
  resolve (\<^verbatim>\<open>d_rtag\<close> gives \<^verbatim>\<open>NOT_LOCAL\<close>) is left as it is, with no access out of range,
  when the particle is a ghost (its index is at least \<open>N\<close>) or the pass updates local bodies
  only (\<^verbatim>\<open>remote\<close> is false): its thread returns the state unchanged, and a pass leaves its
  position, orientation and image unchanged.
\<close>

theorem unresolved_central_is_skipped:
  assumes "d_body sy i \<noteq> NO_BODY" "d_body sy i < rtag_size sy"
    and "d_rtag sy (d_body sy i) = NOT_LOCAL" "sN sy < 4294967296"
    and "sN sy \<le> i \<or> \<not> remote"
  shows "gpu_update_composite_kernel sy box_wrap remote i s = Some s \<and>
         (\<forall>s'. gpu_update_composite sy box_wrap remote max_bs block_size s = Some s'
            \<longrightarrow> d_postype s' i = d_postype s i \<and> d_orientation s' i = d_orientation s i \<and>
                d_image s' i = d_image s i)"
proof -
  have idle: "gpu_update_composite_kernel sy box_wrap remote i s1 = Some s1" for s1
    using assms
    by (auto simp: gpu_update_composite_kernel_def Let_def rd_def NOT_LOCAL_def)
  have "d_postype s' i = d_postype s i \<and> d_orientation s' i = d_orientation s i \<and>
                d_image s' i = d_image s i"
    if "gpu_update_composite sy box_wrap remote max_bs block_size s = Some s'" for s'
  proof -
    from that obtain n_blocks run_block_size where
      run: "run_threads (gpu_update_composite_kernel sy box_wrap remote)
              (thread_ids n_blocks run_block_size) s = Some s'"
      by (rule update_pass_threads)
    show ?thesis
      using run_threads_idle[OF run idle] run_threads_orientation[OF run] by simp
  qed
  then show ?thesis using idle by blast
qed

theorem unresolved_central_is_skipped_witness:
  "d_body ex_orphan 1 \<noteq> NO_BODY \<and> d_body ex_orphan 1 < rtag_size ex_orphan \<and>
   d_rtag ex_orphan (d_body ex_orphan 1) = NOT_LOCAL \<and> sN ex_orphan < 4294967296 \<and>
   gpu_update_composite_kernel ex_orphan ex_wrap False 1 ex_placed = Some ex_placed \<and>
   (\<exists>s'. gpu_update_composite ex_orphan ex_wrap False 64 64 ex_placed = Some s' \<and>
      d_postype s' 1 = d_postype ex_placed 1 \<and> d_orientation s' 1 = d_orientation ex_placed 1 \<and>
      d_image s' 1 = d_image ex_placed 1) \<and>
   sN ex_orphan_ghost \<le> 1 \<and>
   gpu_update_composite_kernel ex_orphan_ghost ex_wrap True 1 ex_placed = Some ex_placed \<and>
   (\<exists>s'. gpu_update_composite ex_orphan_ghost ex_wrap True 64 64 ex_placed = Some s' \<and>
      d_postype s' 1 = d_postype ex_placed 1 \<and> d_orientation s' 1 = d_orientation ex_placed 1 \<and>
      d_image s' 1 = d_image ex_placed 1)"
proof -
  have f: "d_body ex_orphan 1 \<noteq> NO_BODY" "d_body ex_orphan 1 < rtag_size ex_orphan"
    "d_rtag ex_orphan (d_body ex_orphan 1) = NOT_LOCAL" "sN ex_orphan < 4294967296"
    by (simp_all add: ex_orphan_def ex_system_def NO_BODY_def)
  have g: "d_body ex_orphan_ghost 1 \<noteq> NO_BODY"
    "d_body ex_orphan_ghost 1 < rtag_size ex_orphan_ghost"
    "d_rtag ex_orphan_ghost (d_body ex_orphan_ghost 1) = NOT_LOCAL"
    "sN ex_orphan_ghost < 4294967296" "sN ex_orphan_ghost \<le> 1"
    by (simp_all add: ex_orphan_ghost_def ex_orphan_def ex_system_def NO_BODY_def)
  have np: "\<not> processed ex_orphan False i" for i
    by (simp add: processed_def ex_orphan_def ex_system_def NOT_LOCAL_def)
  have ok: "spread_ok ex_orphan False ex_placed"
    unfolding spread_ok_def using np
    by (auto simp: ex_orphan_def ex_system_def NO_BODY_def)
  have npg: "\<not> processed ex_orphan_ghost True i" for i
    by (auto simp: processed_def ex_orphan_ghost_def ex_orphan_def ex_system_def NOT_LOCAL_def)
  have okg: "spread_ok ex_orphan_ghost True ex_placed"
    unfolding spread_ok_def using npg
    by (auto simp: ex_orphan_ghost_def ex_orphan_def ex_system_def NO_BODY_def)
  obtain s' where run: "gpu_update_composite ex_orphan ex_wrap False 64 64 ex_placed = Some s'"
    using update_pass_total[OF ok, of 64 64 ex_wrap] by auto
  obtain t' where rung: "gpu_update_composite ex_orphan_ghost ex_wrap True 64 64 ex_placed = Some t'"
    using update_pass_total[OF okg, of 64 64 ex_wrap] by auto
  have a: "gpu_update_composite_kernel ex_orphan ex_wrap False 1 ex_placed = Some ex_placed \<and>
         (\<forall>s'. gpu_update_composite ex_orphan ex_wrap False 64 64 ex_placed = Some s'
            \<longrightarrow> d_postype s' 1 = d_postype ex_placed 1 \<and>
                d_orientation s' 1 = d_orientation ex_placed 1 \<and>
                d_image s' 1 = d_image ex_placed 1)"
    by (rule unresolved_central_is_skipped[OF f]) simp
  have b: "gpu_update_composite_kernel ex_orphan_ghost ex_wrap True 1 ex_placed = Some ex_placed \<and>
         (\<forall>s'. gpu_update_composite ex_orphan_ghost ex_wrap True 64 64 ex_placed = Some s'
            \<longrightarrow> d_postype s' 1 = d_postype ex_placed 1 \<and>
                d_orientation s' 1 = d_orientation ex_placed 1 \<and>
                d_image s' 1 = d_image ex_placed 1)"
    by (rule unresolved_central_is_skipped[OF g(1-4)]) (use g(5) in simp)
  show ?thesis using f g(5) a b run rung by blast
qed

text \<open>
  For a locally owned particle in a pass with \<^verbatim>\<open>remote\<close> set the guard
  \<^verbatim>\<open>central_idx == NOT_LOCAL && idx >= N\<close> does not apply, and the thread reads
  \<^verbatim>\<open>d_postype\<close> at index \<^verbatim>\<open>NOT_LOCAL\<close>, outside the \<open>N + n_ghost\<close> entries.
\<close>

theorem unresolved_local_central_faults:
  "d_body ex_orphan 1 \<noteq> NO_BODY \<and> d_body ex_orphan 1 < rtag_size ex_orphan \<and>
   d_rtag ex_orphan (d_body ex_orphan 1) = NOT_LOCAL \<and> 1 < sN ex_orphan \<and>
   gpu_update_composite_kernel ex_orphan ex_wrap True 1 ex_placed = None \<and>
   gpu_update_composite ex_orphan ex_wrap True 64 64 ex_placed = None"
proof -
  have k: "gpu_update_composite_kernel ex_orphan ex_wrap True 1 s = None" for s
    by (simp add: gpu_update_composite_kernel_def ex_orphan_def ex_system_def Let_def rd_def
          u32_def NO_BODY_def NOT_LOCAL_def)
  have "1 \<in> set (thread_ids (u32 (u32 (sN ex_orphan + n_ghost ex_orphan) div 64 + 1)) 64)"
    by (rule thread_ids_mem) (simp_all add: ex_orphan_def ex_system_def)
  then have "run_threads (gpu_update_composite_kernel ex_orphan ex_wrap True)
        (thread_ids (u32 (u32 (sN ex_orphan + n_ghost ex_orphan) div 64 + 1)) 64) ex_placed = None"
    by (rule run_threads_fault) (rule k)
  then have "gpu_update_composite ex_orphan ex_wrap True 64 64 ex_placed = None"
    by (simp add: gpu_update_composite_def Let_def)
  moreover have "d_body ex_orphan 1 \<noteq> NO_BODY" "d_body ex_orphan 1 < rtag_size ex_orphan"
    "d_rtag ex_orphan (d_body ex_orphan 1) = NOT_LOCAL" "1 < sN ex_orphan"
    by (simp_all add: ex_orphan_def ex_system_def NO_BODY_def)
  ultimately show ?thesis using k by simp
qed

text \<open>
  Claim C6. The claim is that a body whose central particle has an index of at least \<open>N\<close> is
  skipped by a pass of \<^verbatim>\<open>gpu_rigid_force\<close>: nothing of its constituents is folded or zeroed
  and nothing is written at the index of its central particle. The gathering loop is guarded
  by \<^verbatim>\<open>central_idx[m] < N\<close>, the final store is not: on a system of three local particles
  and one ghost, whose one body has the ghost as its central particle, the net forces and net
  torques are unchanged, and the force and torque slots at the index of the ghost, which the
  reset of the \<open>N\<close> first slots does not reach, are overwritten with zero.
\<close>

theorem skipped_body_central_slot_overwritten:
  "d_force ex_device 3 = Scalar4 9 9 9 9 \<and> d_torque ex_device 3 = Scalar4 9 9 9 9 \<and>
   central ex_ghost 0 = 3 \<and> sN ex_ghost = 3 \<and>
   (\<exists>dv'. gpu_rigid_force ex_ghost ex_hardware 1 64 True ex_shared (\<lambda>b t. 0) ex_device = Some dv' \<and>
      d_force dv' 3 = Scalar4 0 0 0 0 \<and> d_torque dv' 3 = Scalar4 0 0 0 0 \<and>
      d_net_force dv' = d_net_force ex_device \<and> d_net_torque dv' = d_net_torque ex_device)"
proof -
  let ?dv0 = "ex_device\<lparr>d_force := memset0 (d_force ex_device) (sN ex_ghost),
                         d_torque := memset0 (d_torque ex_device) (sN ex_ghost)\<rparr>"
  let ?tot = "body_total (force_contrib ex_ghost) ex_ghost ex_device"
  let ?X = "store_bodies force_store ?tot ex_ghost (n_mol ex_ghost) ?dv0"
  let ?dv' = "force_zero True (folded ex_ghost) ?X"
  have run: "gpu_rigid_force ex_ghost ex_hardware 1 64 True ex_shared (\<lambda>b t. 0) ex_device = Some ?dv'"
    by (rule force_pass_eq[OF ex_sizing_ok ex_ghost_molecules_ok])
  have fo: "folded ex_ghost = {}"
    by (rule folded_inactive) (simp add: ex_ghost_facts)
  have tot: "?tot 0 = 0" by (rule body_total_inactive) (simp add: ex_ghost_facts)
  have "d_force ?X (central ex_ghost 0) = sum_force (?tot 0)"
    by (rule store_bodies_force_central(1)) (simp_all add: ex_ghost_facts)
  then have f: "d_force ?dv' 3 = Scalar4 0 0 0 0"
    by (simp add: tot ex_ghost_facts force_zero_def zero_force_torque_def zero_scalar4_def)
  have "d_torque ?X (central ex_ghost 0)
      = Scalar4 (vx (sum_torque (?tot 0))) (vy (sum_torque (?tot 0))) (vz (sum_torque (?tot 0))) 0"
    by (rule store_bodies_force_central(2)) (simp_all add: ex_ghost_facts)
  then have t: "d_torque ?dv' 3 = Scalar4 0 0 0 0"
    by (simp add: tot ex_ghost_facts force_zero_def zero_force_torque_def zero_vec3_def)
  have n: "d_net_force ?dv' = d_net_force ex_device" "d_net_torque ?dv' = d_net_torque ex_device"
    by (simp_all add: fo force_zero_def store_bodies_force_net)
  have "d_force ex_device 3 = Scalar4 9 9 9 9" "d_torque ex_device 3 = Scalar4 9 9 9 9"
    by (simp_all add: ex_device_def)
  then show ?thesis using run f t n by (simp add: ex_ghost_facts)
qed

text \<open>
  Claim C7. After a pass of \<^verbatim>\<open>gpu_rigid_force\<close> the net torque of every folded member
  (a member, other than the central particle, of a body whose central particle is local) is
  zero, and with \<^verbatim>\<open>zero_force\<close> set so are its net force and energy; a second pass on the
  resulting state, with \<^verbatim>\<open>zero_force\<close> set in the first, stores zero force and zero torque
  at every local central particle.
\<close>

theorem zeroing_and_second_pass:
  assumes "sizing_ok hw block_size nbpb" "molecules_ok sy block_size nbpb"
  shows "\<exists>dv'. gpu_rigid_force sy hw nbpb block_size zero_force sh0 scratch0 dv = Some dv' \<and>
          (\<forall>g k. g < n_mol sy \<and> central sy g < sN sy \<and> k < d_molecule_len sy g \<and>
                 mol_member sy g k \<noteq> central sy g
             \<longrightarrow> d_net_torque dv' (mol_member sy g k) = Scalar4 0 0 0 0 \<and>
                 (zero_force \<longrightarrow> d_net_force dv' (mol_member sy g k) = Scalar4 0 0 0 0)) \<and>
          (zero_force \<longrightarrow>
            (\<exists>dv''. gpu_rigid_force sy hw nbpb block_size zero_force sh1 scratch1 dv' = Some dv'' \<and>
               (\<forall>g<n_mol sy. central sy g < sN sy
                  \<longrightarrow> d_force dv'' (central sy g) = Scalar4 0 0 0 0 \<and>
                      d_torque dv'' (central sy g) = Scalar4 0 0 0 0)))"
proof -
  let ?dv0 = "dv\<lparr>d_force := memset0 (d_force dv) (sN sy), d_torque := memset0 (d_torque dv) (sN sy)\<rparr>"
  let ?tot = "body_total (force_contrib sy) sy dv"
  let ?dv' = "force_zero zero_force (folded sy) (store_bodies force_store ?tot sy (n_mol sy) ?dv0)"
  have run: "gpu_rigid_force sy hw nbpb block_size zero_force sh0 scratch0 dv = Some ?dv'"
    by (rule force_pass_eq[OF assms(1,2)])
  have fold: "mol_member sy g k \<in> folded sy"
    if "g < n_mol sy" "central sy g < sN sy" "k < d_molecule_len sy g"
       "mol_member sy g k \<noteq> central sy g" for g k
    using that unfolding folded_def constituents_def active_def by blast
  have zt: "d_net_torque ?dv' (mol_member sy g k) = Scalar4 0 0 0 0"
    if "g < n_mol sy" "central sy g < sN sy" "k < d_molecule_len sy g"
       "mol_member sy g k \<noteq> central sy g" for g k
    using fold[OF that] by (simp add: force_zero_def zero_scalar4_def)
  have zf: "d_net_force ?dv' (mol_member sy g k) = Scalar4 0 0 0 0"
    if "zero_force" "g < n_mol sy" "central sy g < sN sy" "k < d_molecule_len sy g"
       "mol_member sy g k \<noteq> central sy g" for g k
    using fold[OF that(2-5)] that(1) by (simp add: force_zero_def zero_scalar4_def)
  have second: "\<exists>dv''. gpu_rigid_force sy hw nbpb block_size zero_force sh1 scratch1 ?dv' = Some dv'' \<and>
               (\<forall>g<n_mol sy. central sy g < sN sy
                  \<longrightarrow> d_force dv'' (central sy g) = Scalar4 0 0 0 0 \<and>
                      d_torque dv'' (central sy g) = Scalar4 0 0 0 0)"
    if z: "zero_force"
  proof -
    let ?dv1 = "?dv'\<lparr>d_force := memset0 (d_force ?dv') (sN sy), d_torque := memset0 (d_torque ?dv') (sN sy)\<rparr>"
    let ?tot1 = "body_total (force_contrib sy) sy ?dv'"
    let ?dv'' = "force_zero zero_force (folded sy) (store_bodies force_store ?tot1 sy (n_mol sy) ?dv1)"
    have run2: "gpu_rigid_force sy hw nbpb block_size zero_force sh1 scratch1 ?dv' = Some ?dv''"
      by (rule force_pass_eq[OF assms(1,2)])
    have "d_force ?dv'' (central sy g) = Scalar4 0 0 0 0 \<and> d_torque ?dv'' (central sy g) = Scalar4 0 0 0 0"
      if g: "g < n_mol sy" "central sy g < sN sy" for g
    proof -
      have dis: "\<forall>g'<n_mol sy. g' \<noteq> g \<longrightarrow> central sy g' \<noteq> central sy g"
        using centrals_distinct[OF assms(2) g(1)] by blast
      have f0: "sum_force (?tot1 g) = 0"
        unfolding body_total_force[OF g(2)]
        by (rule sum.neutral) (use zf[OF z g] in \<open>auto simp: zero_scalar4_def\<close>)
      have t0: "sum_torque (?tot1 g) = 0"
        unfolding body_total_torque[OF g(2)]
        by (rule sum.neutral)
           (use zf[OF z g] zt[OF g] in \<open>auto simp: zero_vec3_def vec3_of_scalar4_def cross_def plus_vec3_def\<close>)
      have "d_force ?dv'' (central sy g) = sum_force (?tot1 g)"
        using store_bodies_force_central(1)[OF g(1,1) dis, of ?tot1 ?dv1]
        by (simp add: force_zero_def)
      moreover have "d_torque ?dv'' (central sy g)
         = Scalar4 (vx (sum_torque (?tot1 g))) (vy (sum_torque (?tot1 g))) (vz (sum_torque (?tot1 g))) 0"
        using store_bodies_force_central(2)[OF g(1,1) dis, of ?tot1 ?dv1]
        by (simp add: force_zero_def)
      ultimately show ?thesis
        by (simp add: f0 t0 zero_scalar4_def zero_vec3_def)
    qed
    then show ?thesis using run2 by blast
  qed
  show ?thesis
    using run zt zf second by (intro exI[of _ ?dv'] conjI) blast+
qed

theorem zeroing_and_second_pass_witness:
  "sizing_ok ex_hardware 64 1 \<and> molecules_ok ex_system 64 1 \<and>
   (\<exists>dv'. gpu_rigid_force ex_system ex_hardware 1 64 True ex_shared (\<lambda>b t. 0) ex_device = Some dv' \<and>
      d_net_torque dv' 1 = Scalar4 0 0 0 0 \<and> d_net_force dv' 1 = Scalar4 0 0 0 0 \<and>
      d_net_torque dv' 2 = Scalar4 0 0 0 0 \<and> d_net_force dv' 2 = Scalar4 0 0 0 0 \<and>
      (\<exists>dv''. gpu_rigid_force ex_system ex_hardware 1 64 True ex_shared (\<lambda>b t. 0) dv' = Some dv'' \<and>
         d_force dv'' 0 = Scalar4 0 0 0 0 \<and> d_torque dv'' 0 = Scalar4 0 0 0 0))"
proof -
  obtain dv' where run: "gpu_rigid_force ex_system ex_hardware 1 64 True ex_shared (\<lambda>b t. 0) ex_device = Some dv'"
    and z: "\<forall>g k. g < n_mol ex_system \<and> central ex_system g < sN ex_system \<and>
                 k < d_molecule_len ex_system g \<and> mol_member ex_system g k \<noteq> central ex_system g
             \<longrightarrow> d_net_torque dv' (mol_member ex_system g k) = Scalar4 0 0 0 0 \<and>
                 (True \<longrightarrow> d_net_force dv' (mol_member ex_system g k) = Scalar4 0 0 0 0)"
    and s: "True \<longrightarrow>
            (\<exists>dv''. gpu_rigid_force ex_system ex_hardware 1 64 True ex_shared (\<lambda>b t. 0) dv' = Some dv'' \<and>
               (\<forall>g<n_mol ex_system. central ex_system g < sN ex_system
                  \<longrightarrow> d_force dv'' (central ex_system g) = Scalar4 0 0 0 0 \<and>
                      d_torque dv'' (central ex_system g) = Scalar4 0 0 0 0))"
    using zeroing_and_second_pass[OF ex_sizing_ok ex_molecules_ok,
            of True ex_shared "\<lambda>b t. 0" ex_device ex_shared "\<lambda>b t. 0"]
    by blast
  have "d_net_torque dv' 1 = Scalar4 0 0 0 0 \<and> d_net_force dv' 1 = Scalar4 0 0 0 0"
    using z[rule_format, of 0 1] by (simp add: ex_central)
  moreover have "d_net_torque dv' 2 = Scalar4 0 0 0 0 \<and> d_net_force dv' 2 = Scalar4 0 0 0 0"
    using z[rule_format, of 0 2] by (simp add: ex_central)
  moreover have "\<exists>dv''. gpu_rigid_force ex_system ex_hardware 1 64 True ex_shared (\<lambda>b t. 0) dv' = Some dv'' \<and>
         d_force dv'' 0 = Scalar4 0 0 0 0 \<and> d_torque dv'' 0 = Scalar4 0 0 0 0"
    using s by (auto simp: ex_central)
  ultimately show ?thesis
    using run ex_sizing_ok ex_molecules_ok by blast
qed

text \<open>
  Claim C8. For every constituent that a pass of \<^verbatim>\<open>gpu_update_composite\<close> processes, the
  pass returns, and the position written is the position of the central particle plus the
  template offset rotated by the orientation of the central particle, wrapped by the box; the
  image written is the image of the central particle as updated by that wrap; the particle
  type kept in the position record is the one of the constituent. When the orientation of the
  central particle is the identity, the position wrapped is the position of the central
  particle plus the template offset itself.
\<close>

theorem spreader_writes_wrapped_position:
  assumes "spread_ok sy remote s" "0 < max_bs" "0 < block_size" "processed sy remote i"
  shows "\<exists>s'. gpu_update_composite sy box_wrap remote max_bs block_size s = Some s' \<and>
          vec3_of_postype (d_postype s' i) = fst (spread_target sy box_wrap s i) \<and>
          ptype (d_postype s' i) = ptype (d_postype s i) \<and>
          d_image s' i = snd (spread_target sy box_wrap s i) \<and>
          (quat_of_scalar4 (d_orientation s (d_rtag sy (d_body sy i))) = Quat 1 (Vec3 0 0 0)
             \<longrightarrow> spread_target sy box_wrap s i
                 = box_wrap (vec3_of_postype (d_postype s (d_rtag sy (d_body sy i)))
                              + d_body_pos sy (template_index sy s i))
                     (d_image s (d_rtag sy (d_body sy i))))"
proof -
  have "spread_target sy box_wrap s i
          = box_wrap (vec3_of_postype (d_postype s (d_rtag sy (d_body sy i)))
                       + d_body_pos sy (template_index sy s i))
              (d_image s (d_rtag sy (d_body sy i)))"
    if "quat_of_scalar4 (d_orientation s (d_rtag sy (d_body sy i))) = Quat 1 (Vec3 0 0 0)"
    by (simp add: spread_target_def that rotate_identity)
  then show ?thesis
    using spread_pass_result[OF assms, of box_wrap] by blast
qed

theorem spreader_writes_wrapped_position_witness:
  "spread_ok ex_system False ex_placed \<and> processed ex_system False 1 \<and>
   quat_of_scalar4 (d_orientation ex_placed (d_rtag ex_system (d_body ex_system 1)))
     = Quat 1 (Vec3 0 0 0) \<and>
   (\<exists>s'. gpu_update_composite ex_system ex_wrap False 64 64 ex_placed = Some s' \<and>
      vec3_of_postype (d_postype s' 1) = Vec3 (- 9 / 2) 0 0 \<and>
      ptype (d_postype s' 1) = 1 \<and> d_image s' 1 = Int3 1 0 0)"
proof -
  have ok: "spread_ok ex_system False ex_placed"
    by (rule ex_spread_ok) (simp add: ex_placed_fields)
  have pr: "processed ex_system False 1" by (simp add: ex_processed)
  have q: "quat_of_scalar4 (d_orientation ex_placed (d_rtag ex_system (d_body ex_system 1)))
     = Quat 1 (Vec3 0 0 0)"
    by (simp add: ex_placed_fields quat_of_scalar4_def)
  have ti: "template_index ex_system ex_placed 1 = 0"
    by (rule ex_template_index) (simp add: ex_placed_fields)
  have tg: "ex_wrap (vec3_of_postype (d_postype ex_placed (d_rtag ex_system (d_body ex_system 1)))
                     + d_body_pos ex_system (template_index ex_system ex_placed 1))
              (d_image ex_placed (d_rtag ex_system (d_body ex_system 1)))
          = (Vec3 (- 9 / 2) 0 0, Int3 1 0 0)"
    unfolding ti
    by (simp add: ex_system_fields ex_placed_fields vec3_of_postype_def plus_vec3_def ex_wrap_def)
  show ?thesis
    using spreader_writes_wrapped_position[OF ok _ _ pr, of 64 64 ex_wrap] ok pr q tg
    by (auto simp: ex_placed_fields)
qed

text \<open>
  Claim C9. A pass of \<^verbatim>\<open>gpu_update_composite\<close> leaves the position record, the orientation
  and the image of a particle unchanged when its body tag is \<^verbatim>\<open>NO_BODY\<close>, and when it is a
  central particle (the reverse lookup of its body tag is its own index).
\<close>

theorem spreader_skips_free_and_central:
  assumes "gpu_update_composite sy box_wrap remote max_bs block_size s = Some s'"
    and "d_body sy i = NO_BODY \<or> d_rtag sy (d_body sy i) = i"
  shows "d_postype s' i = d_postype s i \<and> d_orientation s' i = d_orientation s i \<and>
         d_image s' i = d_image s i"
proof -
  from assms(1) obtain n_blocks run_block_size where
    run: "run_threads (gpu_update_composite_kernel sy box_wrap remote)
            (thread_ids n_blocks run_block_size) s = Some s'"
    by (rule update_pass_threads)
  show ?thesis
    using run_threads_skip[OF run assms(2)] run_threads_orientation[OF run] by simp
qed

theorem spreader_skips_free_and_central_witness:
  "d_body ex_system 3 = NO_BODY \<and> d_rtag ex_system (d_body ex_system 0) = 0 \<and>
   (\<exists>s'. gpu_update_composite ex_system ex_wrap False 64 64 ex_placed = Some s' \<and>
      d_postype s' 3 = d_postype ex_placed 3 \<and> d_orientation s' 3 = d_orientation ex_placed 3 \<and>
      d_image s' 3 = d_image ex_placed 3 \<and>
      d_postype s' 0 = d_postype ex_placed 0 \<and> d_orientation s' 0 = d_orientation ex_placed 0 \<and>
      d_image s' 0 = d_image ex_placed 0 \<and> d_postype s' 1 \<noteq> d_postype ex_placed 1)"
proof -
  have ok: "spread_ok ex_system False ex_placed"
    by (rule ex_spread_ok) (simp add: ex_placed_fields)
  have pr: "processed ex_system False 1" by (simp add: ex_processed)
  have ti: "template_index ex_system ex_placed 1 = 0"
    by (rule ex_template_index) (simp add: ex_placed_fields)
  have tg: "spread_target ex_system ex_wrap ex_placed 1 = (Vec3 (- 9 / 2) 0 0, Int3 1 0 0)"
    unfolding spread_target_def ti
    by (simp add: ex_system_fields ex_placed_fields vec3_of_postype_def plus_vec3_def ex_wrap_def
          rotate_identity quat_of_scalar4_def)
  obtain s' where run: "gpu_update_composite ex_system ex_wrap False 64 64 ex_placed = Some s'"
    and p1: "vec3_of_postype (d_postype s' 1) = Vec3 (- 9 / 2) 0 0"
    using spread_pass_result[OF ok _ _ pr, of 64 64 ex_wrap] tg by auto
  have f: "d_body ex_system 3 = NO_BODY" "d_rtag ex_system (d_body ex_system 0) = 0"
    by (simp_all add: ex_system_fields)
  have "d_postype s' 1 \<noteq> d_postype ex_placed 1"
    using p1 by (auto simp: ex_placed_fields vec3_of_postype_def)
  then show ?thesis
    using spreader_skips_free_and_central[OF run, of 3] spreader_skips_free_and_central[OF run, of 0]
      f run by auto
qed

text \<open>
  Claim C10. After a pass of \<^verbatim>\<open>gpu_rigid_force\<close> the force and the torque output at every
  index below \<open>N\<close> that is not the central particle of a body are zero, and the outputs at all
  indices below \<open>N\<close> do not depend on what the output arrays held before the pass. After a pass
  of \<^verbatim>\<open>gpu_rigid_virial\<close> every one of the \<open>6 \<times> virial_pitch\<close> virial outputs that is not a
  component slot of the central particle of a processed body is zero, and none of them
  depends on what the array held before the pass.
\<close>

theorem outputs_reset_and_overwritten:
  assumes "sizing_ok hw block_size nbpb" "sizing_ok hw' block_size nbpb"
    and "molecules_ok sy block_size nbpb" "virial_ok sy net_virial_pitch virial_pitch"
  shows "(\<exists>dv'. gpu_rigid_force sy hw nbpb block_size zero_force sh0 scratch0 dv = Some dv' \<and>
           (\<forall>i<sN sy. (\<forall>g<n_mol sy. central sy g \<noteq> i)
               \<longrightarrow> d_force dv' i = Scalar4 0 0 0 0 \<and> d_torque dv' i = Scalar4 0 0 0 0) \<and>
           (\<forall>X Y. \<exists>dv2. gpu_rigid_force sy hw nbpb block_size zero_force sh0 scratch0
                            (dv\<lparr>d_force := X, d_torque := Y\<rparr>) = Some dv2 \<and>
               (\<forall>i<sN sy. d_force dv2 i = d_force dv' i \<and> d_torque dv2 i = d_torque dv' i))) \<and>
         (\<exists>dv'. gpu_rigid_virial sy hw' nbpb net_virial_pitch virial_pitch block_size sh1 scratch1 dv
                  = Some dv' \<and>
           (\<forall>j<virial_pitch * 6.
               (\<forall>g c. g < n_mol sy \<and> central sy g < sN sy \<and> c < 6
                    \<longrightarrow> j \<noteq> vslot virial_pitch c (central sy g))
               \<longrightarrow> d_virial dv' j = 0) \<and>
           (\<forall>X. \<exists>dv2. gpu_rigid_virial sy hw' nbpb net_virial_pitch virial_pitch block_size
                          sh1 scratch1 (dv\<lparr>d_virial := X\<rparr>) = Some dv2 \<and>
               (\<forall>j<virial_pitch * 6. d_virial dv2 j = d_virial dv' j)))"
proof (rule conjI)
  let ?m = "\<lambda>d. d\<lparr>d_force := memset0 (d_force d) (sN sy), d_torque := memset0 (d_torque d) (sN sy)\<rparr>"
  let ?tot = "body_total (force_contrib sy) sy dv"
  let ?dv' = "force_zero zero_force (folded sy) (store_bodies force_store ?tot sy (n_mol sy) (?m dv))"
  have run: "gpu_rigid_force sy hw nbpb block_size zero_force sh0 scratch0 dv = Some ?dv'"
    by (rule force_pass_eq[OF assms(1,3)])
  have zero: "d_force ?dv' i = Scalar4 0 0 0 0 \<and> d_torque ?dv' i = Scalar4 0 0 0 0"
    if "i < sN sy" "\<forall>g<n_mol sy. central sy g \<noteq> i" for i
    using that store_bodies_force_other[of "n_mol sy" sy i ?tot "?m dv"]
    by (simp add: force_zero_def memset0_def zero_scalar4_def)
  have indep: "\<exists>dv2. gpu_rigid_force sy hw nbpb block_size zero_force sh0 scratch0
                            (dv\<lparr>d_force := X, d_torque := Y\<rparr>) = Some dv2 \<and>
               (\<forall>i<sN sy. d_force dv2 i = d_force ?dv' i \<and> d_torque dv2 i = d_torque ?dv' i)" for X Y
  proof -
    let ?dvx = "dv\<lparr>d_force := X, d_torque := Y\<rparr>"
    let ?totx = "body_total (force_contrib sy) sy ?dvx"
    let ?dv2 = "force_zero zero_force (folded sy) (store_bodies force_store ?totx sy (n_mol sy) (?m ?dvx))"
    have run2: "gpu_rigid_force sy hw nbpb block_size zero_force sh0 scratch0 ?dvx = Some ?dv2"
      by (rule force_pass_eq[OF assms(1,3)])
    have te: "?totx = ?tot" by (rule ext, rule body_total_cong) simp_all
    have "d_force ?dv2 i = d_force ?dv' i \<and> d_torque ?dv2 i = d_torque ?dv' i" if "i < sN sy" for i
      using that store_bodies_force_indep[of "?m ?dvx" i "?m dv" ?tot sy "n_mol sy"]
      by (simp add: te force_zero_def memset0_def)
    then show ?thesis using run2 by blast
  qed
  show "\<exists>dv'. gpu_rigid_force sy hw nbpb block_size zero_force sh0 scratch0 dv = Some dv' \<and>
           (\<forall>i<sN sy. (\<forall>g<n_mol sy. central sy g \<noteq> i)
               \<longrightarrow> d_force dv' i = Scalar4 0 0 0 0 \<and> d_torque dv' i = Scalar4 0 0 0 0) \<and>
           (\<forall>X Y. \<exists>dv2. gpu_rigid_force sy hw nbpb block_size zero_force sh0 scratch0
                            (dv\<lparr>d_force := X, d_torque := Y\<rparr>) = Some dv2 \<and>
               (\<forall>i<sN sy. d_force dv2 i = d_force dv' i \<and> d_torque dv2 i = d_torque dv' i))"
  proof (intro exI[of _ ?dv'] conjI)
    show "\<forall>X Y. \<exists>dv2. gpu_rigid_force sy hw nbpb block_size zero_force sh0 scratch0
                            (dv\<lparr>d_force := X, d_torque := Y\<rparr>) = Some dv2 \<and>
               (\<forall>i<sN sy. d_force dv2 i = d_force ?dv' i \<and> d_torque dv2 i = d_torque ?dv' i)"
      using indep by blast
    show "\<forall>i<sN sy. (\<forall>g<n_mol sy. central sy g \<noteq> i)
               \<longrightarrow> d_force ?dv' i = Scalar4 0 0 0 0 \<and> d_torque ?dv' i = Scalar4 0 0 0 0"
      using zero by blast
  qed (rule run)
next
  let ?np = net_virial_pitch and ?vp = virial_pitch
  let ?m = "\<lambda>d. d\<lparr>d_virial := memset0 (d_virial d) (?vp * 6)\<rparr>"
  let ?tot = "body_total (virial_contrib sy ?np) sy dv"
  let ?dv' = "virial_zero ?np (folded sy) (store_bodies (virial_store ?vp) ?tot sy (n_mol sy) (?m dv))"
  have run: "gpu_rigid_virial sy hw' nbpb ?np ?vp block_size sh1 scratch1 dv = Some ?dv'"
    by (rule virial_pass_eq[OF assms(2,3,4)])
  have zero: "d_virial ?dv' j = 0"
    if j: "j < ?vp * 6"
      and nc: "\<forall>g c. g < n_mol sy \<and> central sy g < sN sy \<and> c < 6 \<longrightarrow> j \<noteq> vslot ?vp c (central sy g)" for j
  proof -
    have "\<forall>g<n_mol sy. ?tot g = 0 \<or> (\<forall>c<6. j \<noteq> vslot ?vp c (central sy g))"
      using nc body_total_inactive[of sy _ "virial_contrib sy ?np" dv] by blast
    moreover have "d_virial (?m dv) j = 0" using j by (simp add: memset0_def)
    ultimately have "d_virial (store_bodies (virial_store ?vp) ?tot sy (n_mol sy) (?m dv)) j = 0"
      by (rule store_bodies_virial_zero[rotated])
    then show ?thesis by (simp add: virial_zero_def)
  qed
  have indep: "\<exists>dv2. gpu_rigid_virial sy hw' nbpb ?np ?vp block_size sh1 scratch1 (dv\<lparr>d_virial := X\<rparr>) = Some dv2 \<and>
               (\<forall>j<?vp * 6. d_virial dv2 j = d_virial ?dv' j)" for X
  proof -
    let ?dvx = "dv\<lparr>d_virial := X\<rparr>"
    let ?totx = "body_total (virial_contrib sy ?np) sy ?dvx"
    let ?dv2 = "virial_zero ?np (folded sy) (store_bodies (virial_store ?vp) ?totx sy (n_mol sy) (?m ?dvx))"
    have run2: "gpu_rigid_virial sy hw' nbpb ?np ?vp block_size sh1 scratch1 ?dvx = Some ?dv2"
      by (rule virial_pass_eq[OF assms(2,3,4)])
    have te: "?totx = ?tot" by (rule ext, rule virial_total_cong) simp_all
    have "d_virial ?dv2 j = d_virial ?dv' j" if "j < ?vp * 6" for j
      using that store_bodies_virial_indep[of "?m ?dvx" j "?m dv" ?vp ?tot sy "n_mol sy"]
      by (simp add: te virial_zero_def memset0_def)
    then show ?thesis using run2 by blast
  qed
  show "\<exists>dv'. gpu_rigid_virial sy hw' nbpb ?np ?vp block_size sh1 scratch1 dv = Some dv' \<and>
           (\<forall>j<?vp * 6.
               (\<forall>g c. g < n_mol sy \<and> central sy g < sN sy \<and> c < 6 \<longrightarrow> j \<noteq> vslot ?vp c (central sy g))
               \<longrightarrow> d_virial dv' j = 0) \<and>
           (\<forall>X. \<exists>dv2. gpu_rigid_virial sy hw' nbpb ?np ?vp block_size sh1 scratch1 (dv\<lparr>d_virial := X\<rparr>) = Some dv2 \<and>
               (\<forall>j<?vp * 6. d_virial dv2 j = d_virial dv' j))"
  proof (intro exI[of _ ?dv'] conjI)
    show "\<forall>X. \<exists>dv2. gpu_rigid_virial sy hw' nbpb ?np ?vp block_size sh1 scratch1 (dv\<lparr>d_virial := X\<rparr>) = Some dv2 \<and>
               (\<forall>j<?vp * 6. d_virial dv2 j = d_virial ?dv' j)"
      using indep by blast
    show "\<forall>j<?vp * 6.
               (\<forall>g c. g < n_mol sy \<and> central sy g < sN sy \<and> c < 6 \<longrightarrow> j \<noteq> vslot ?vp c (central sy g))
               \<longrightarrow> d_virial ?dv' j = 0"
      using zero by blast
  qed (rule run)
qed

theorem outputs_reset_and_overwritten_witness:
  "sizing_ok ex_hardware 64 1 \<and> molecules_ok ex_system 64 1 \<and> virial_ok ex_system 4 4 \<and>
   d_force ex_device 3 = Scalar4 9 9 9 9 \<and> d_torque ex_device 3 = Scalar4 9 9 9 9 \<and>
   d_virial ex_device 1 = 7 \<and>
   (\<exists>dv'. gpu_rigid_force ex_system ex_hardware 1 64 False ex_shared (\<lambda>b t. 0) ex_device = Some dv' \<and>
      d_force dv' 3 = Scalar4 0 0 0 0 \<and> d_torque dv' 3 = Scalar4 0 0 0 0 \<and>
      d_force dv' 1 = Scalar4 0 0 0 0 \<and> d_torque dv' 1 = Scalar4 0 0 0 0) \<and>
   (\<exists>dv'. gpu_rigid_virial ex_system ex_hardware 1 4 4 64 ex_shared (\<lambda>b t. 0) ex_device = Some dv' \<and>
      d_virial dv' 1 = 0 \<and> d_virial dv' 23 = 0)"
proof -
  note C = outputs_reset_and_overwritten[OF ex_sizing_ok ex_sizing_ok ex_molecules_ok ex_virial_ok,
      of False ex_shared "\<lambda>b t. 0" ex_device ex_shared "\<lambda>b t. 0"]
  obtain dv' where run: "gpu_rigid_force ex_system ex_hardware 1 64 False ex_shared (\<lambda>b t. 0) ex_device = Some dv'"
    and z: "\<forall>i<sN ex_system. (\<forall>g<n_mol ex_system. central ex_system g \<noteq> i)
               \<longrightarrow> d_force dv' i = Scalar4 0 0 0 0 \<and> d_torque dv' i = Scalar4 0 0 0 0"
    using C by blast
  obtain dw where runv: "gpu_rigid_virial ex_system ex_hardware 1 4 4 64 ex_shared (\<lambda>b t. 0) ex_device = Some dw"
    and zv: "\<forall>j<4 * 6.
               (\<forall>g c. g < n_mol ex_system \<and> central ex_system g < sN ex_system \<and> c < 6
                    \<longrightarrow> j \<noteq> vslot 4 c (central ex_system g))
               \<longrightarrow> d_virial dw j = 0"
    using C by blast
  have f3: "d_force dv' 3 = Scalar4 0 0 0 0 \<and> d_torque dv' 3 = Scalar4 0 0 0 0"
    using z[rule_format, of 3] by (simp add: ex_central)
  have f1: "d_force dv' 1 = Scalar4 0 0 0 0 \<and> d_torque dv' 1 = Scalar4 0 0 0 0"
    using z[rule_format, of 1] by (simp add: ex_central)
  have slot: "vslot 4 c 0 = 4 * c" if "c < 6" for c
    using that by (simp add: vslot_def u32_def)
  have v1: "d_virial dw 1 = 0"
    using zv[rule_format, of 1] slot by (auto simp: ex_central)
  have v23: "d_virial dw 23 = 0"
    using zv[rule_format, of 23] slot by (auto simp: ex_central)
  have d: "d_force ex_device 3 = Scalar4 9 9 9 9" "d_torque ex_device 3 = Scalar4 9 9 9 9"
    "d_virial ex_device 1 = 7"
    by (simp_all add: ex_device_def)
  show ?thesis
    using ex_sizing_ok ex_molecules_ok ex_virial_ok d run f3 f1 runv v1 v23 by blast
qed


end
